theory Spec2Isabelle
  imports Complex_Main
begin

section \<open>Conventions of the embedding\<close>

text \<open>
  The TypeScript sources are embedded function by function. A JavaScript \<open>number\<close>
  that holds a score or a threshold is a \<^typ>\<open>real\<close> (NaN and the infinities are
  outside the model); the limit of the rate limiter, which the caller passes unchecked,
  is a \<open>JsNumber\<close>: a finite value, NaN or an infinity; a millisecond timestamp or
  duration and the size of the cache are an \<^typ>\<open>int\<close>.
  A JavaScript string is a \<^typ>\<open>string\<close> of 8-bit characters read as the code points
  0 to 255. An optional value (\<open>T | undefined\<close>) is an \<^typ>\<open>'a option\<close>. The clock
  (\<open>Date.now()\<close>) is a parameter \<open>now\<close> of every operation that reads it, and mutation
  of an object is explicit state passing.
\<close>

section \<open>Scoring: \<open>core/scoring.ts\<close>\<close>

datatype Verdict = VInvalid | VUnknown | VRisky | VValid

record Thresholds =
  valid :: real
  risky :: real
  unknown :: real

definition DEFAULT_THRESHOLDS :: Thresholds where
  "DEFAULT_THRESHOLDS = \<lparr>valid = 85, risky = 60, unknown = 30\<rparr>"

definition computeVerdict :: "real \<Rightarrow> Thresholds option \<Rightarrow> Verdict" where
  "computeVerdict score thresholds =
     (let t = (case thresholds of Some th \<Rightarrow> th | None \<Rightarrow> DEFAULT_THRESHOLDS) in
      if score \<ge> valid t then VValid
      else if score \<ge> risky t then VRisky
      else if score \<ge> unknown t then VUnknown
      else VInvalid)"

definition clampScore :: "real \<Rightarrow> real" where
  "clampScore score = max 0 (min 100 (of_int (round score)))"

text \<open>The order of the verdict tiers: invalid < unknown < risky < valid.\<close>

fun tier :: "Verdict \<Rightarrow> nat" where
  "tier VInvalid = 0"
| "tier VUnknown = 1"
| "tier VRisky = 2"
| "tier VValid = 3"

section \<open>Rate limiter: \<open>core/limiter.ts\<close>\<close>

text \<open>
  \<open>limit\<close> is whatever number the caller configures
  (\<open>maxConnectionsPerDomainPerMinute\<close>, not validated): a finite value, possibly negative
  or fractional, NaN, \<open>Infinity\<close> or \<open>-Infinity\<close>. The code reads it in one place, the
  comparison \<open>fresh.length >= this.limit\<close>, which is \<open>js_ge\<close>; \<open>js_lt\<close> is the comparison
  \<open>n < limit\<close> of JavaScript, for stating that a count is below the limit. A comparison
  with NaN is false. \<open>windowMs\<close> is a whole number of milliseconds: \<open>getLimiter\<close> passes
  \<open>60 * 1000\<close>.
\<close>

datatype JsNumber = Num real | NaN | PosInfinity | NegInfinity

fun js_ge :: "nat \<Rightarrow> JsNumber \<Rightarrow> bool" where
  "js_ge n (Num x) = (real n \<ge> x)"
| "js_ge n NaN = False"
| "js_ge n PosInfinity = False"
| "js_ge n NegInfinity = True"

fun js_lt :: "nat \<Rightarrow> JsNumber \<Rightarrow> bool" where
  "js_lt n (Num x) = (real n < x)"
| "js_lt n NaN = False"
| "js_lt n PosInfinity = True"
| "js_lt n NegInfinity = False"

record RateLimiter =
  windowMs :: int
  limit :: JsNumber
  buckets :: "string \<rightharpoonup> int list"

definition RateLimiter_new :: "JsNumber \<Rightarrow> int \<Rightarrow> RateLimiter" where
  "RateLimiter_new l w = \<lparr>windowMs = w, limit = l, buckets = Map.empty\<rparr>"

text \<open>\<open>allow\<close> at clock value \<open>now\<close>: the answer and the limiter afterwards.\<close>

definition allow :: "RateLimiter \<Rightarrow> int \<Rightarrow> string \<Rightarrow> bool \<times> RateLimiter" where
  "allow rl now key =
     (let windowStart = now - windowMs rl;
          existing = (case buckets rl key of Some b \<Rightarrow> b | None \<Rightarrow> []);
          fresh = filter (\<lambda>ts. ts \<ge> windowStart) existing
      in if js_ge (length fresh) (limit rl)
         then (False, rl\<lparr>buckets := (buckets rl)(key \<mapsto> fresh)\<rparr>)
         else (True, rl\<lparr>buckets := (buckets rl)(key \<mapsto> fresh @ [now])\<rparr>))"

text \<open>A sequence of \<open>allow\<close> calls, each with its clock value and key; the answers are dropped.\<close>

fun allow_all :: "RateLimiter \<Rightarrow> (int \<times> string) list \<Rightarrow> RateLimiter" where
  "allow_all rl [] = rl"
| "allow_all rl ((now, key) # calls) = allow_all (snd (allow rl now key)) calls"

text \<open>The bucket of a key, empty when the key was never seen.\<close>

definition bucket :: "RateLimiter \<Rightarrow> string \<Rightarrow> int list" where
  "bucket rl key = (case buckets rl key of Some b \<Rightarrow> b | None \<Rightarrow> [])"

text \<open>
  The invariant of the buckets of a limiter with a finite limit: every bucket holds
  fewer than \<open>limit + 1\<close> timestamps.
\<close>

definition within_limit :: "RateLimiter \<Rightarrow> bool" where
  "within_limit rl =
     (\<forall>k. case limit rl of Num l \<Rightarrow> real (length (bucket rl k)) < l + 1 | _ \<Rightarrow> True)"

section \<open>Resolver cache: \<open>core/cache.ts\<close>\<close>

text \<open>
  A JavaScript \<open>Map\<close> iterates in insertion order, and the cache relies on that order
  for eviction, so the store is an association list in insertion order whose keys are
  distinct. \<open>Map.set\<close> keeps the position of a key that is present and appends a new one.
\<close>

record 'a CacheEntry =
  data :: 'a
  expiresAt :: int

type_synonym 'a JsMap = "(string \<times> 'a) list"

definition Map_get :: "'a JsMap \<Rightarrow> string \<Rightarrow> 'a option" where
  "Map_get m k = map_of m k"

definition Map_has :: "'a JsMap \<Rightarrow> string \<Rightarrow> bool" where
  "Map_has m k = (map_of m k \<noteq> None)"

definition Map_delete :: "'a JsMap \<Rightarrow> string \<Rightarrow> 'a JsMap" where
  "Map_delete m k = filter (\<lambda>p. fst p \<noteq> k) m"

fun Map_set :: "'a JsMap \<Rightarrow> string \<Rightarrow> 'a \<Rightarrow> 'a JsMap" where
  "Map_set [] k v = [(k, v)]"
| "Map_set (p # ps) k v = (if fst p = k then (k, v) # ps else p # Map_set ps k v)"

text \<open>\<open>map.keys().next().value\<close>: the first key in insertion order, if any.\<close>

definition Map_first_key :: "'a JsMap \<Rightarrow> string option" where
  "Map_first_key m = (case m of [] \<Rightarrow> None | p # _ \<Rightarrow> Some (fst p))"

definition Map_keys :: "'a JsMap \<Rightarrow> string list" where
  "Map_keys m = map fst m"

record 'a DnsCache =
  store :: "'a CacheEntry JsMap"
  maxEntries :: int
  ttlMs :: int

definition DnsCache_new :: "int option \<Rightarrow> int option \<Rightarrow> 'a DnsCache" where
  "DnsCache_new optMaxEntries optTtlMs =
     \<lparr>store = [],
      maxEntries = (case optMaxEntries of Some n \<Rightarrow> n | None \<Rightarrow> 2000),
      ttlMs = (case optTtlMs of Some t \<Rightarrow> t | None \<Rightarrow> 10 * 60 * 1000)\<rparr>"

text \<open>\<open>get\<close>: the entry found, if any, and the cache afterwards.\<close>

definition DnsCache_get :: "'a DnsCache \<Rightarrow> int \<Rightarrow> string \<Rightarrow> 'a CacheEntry option \<times> 'a DnsCache" where
  "DnsCache_get c now key =
     (case Map_get (store c) key of
        None \<Rightarrow> (None, c)
      | Some entry \<Rightarrow>
          if now > expiresAt entry
          then (None, c\<lparr>store := Map_delete (store c) key\<rparr>)
          else (Some entry, c\<lparr>store := Map_set (Map_delete (store c) key) key entry\<rparr>))"

text \<open>
  \<open>set\<close>. The guard \<open>if (oldestKey)\<close> of the source tests the truthiness of a string:
  it fails for \<open>undefined\<close> and for the empty string.
\<close>

definition DnsCache_set :: "'a DnsCache \<Rightarrow> int \<Rightarrow> string \<Rightarrow> 'a \<Rightarrow> int option \<Rightarrow> 'a DnsCache" where
  "DnsCache_set c now key d optTtl =
     (let entry = \<lparr>data = d, expiresAt = now + (case optTtl of Some t \<Rightarrow> t | None \<Rightarrow> ttlMs c)\<rparr>;
          s1 = (if Map_has (store c) key then Map_delete (store c) key else store c);
          s2 = Map_set s1 key entry
      in if int (length s2) > maxEntries c
         then (case Map_first_key s2 of
                 None \<Rightarrow> c\<lparr>store := s2\<rparr>
               | Some oldestKey \<Rightarrow>
                   if oldestKey \<noteq> [] then c\<lparr>store := Map_delete s2 oldestKey\<rparr> else c\<lparr>store := s2\<rparr>)
         else c\<lparr>store := s2\<rparr>)"

text \<open>
  The entry that \<open>set\<close> builds, and the store right after the insertion step of \<open>set\<close>,
  before the size is compared with \<open>maxEntries\<close>.
\<close>

definition newEntry :: "'a DnsCache \<Rightarrow> int \<Rightarrow> 'a \<Rightarrow> int option \<Rightarrow> 'a CacheEntry" where
  "newEntry c now d optTtl =
     \<lparr>data = d, expiresAt = now + (case optTtl of Some t \<Rightarrow> t | None \<Rightarrow> ttlMs c)\<rparr>"

definition inserted :: "'a DnsCache \<Rightarrow> int \<Rightarrow> string \<Rightarrow> 'a \<Rightarrow> int option \<Rightarrow> 'a CacheEntry JsMap" where
  "inserted c now key d optTtl = Map_delete (store c) key @ [(key, newEntry c now d optTtl)]"

text \<open>A sequence of \<open>get\<close> calls for one key, each with its clock value.\<close>

fun get_repeat :: "'a DnsCache \<Rightarrow> int list \<Rightarrow> string \<Rightarrow> 'a DnsCache" where
  "get_repeat c [] key = c"
| "get_repeat c (now # nows) key = get_repeat (snd (DnsCache_get c now key)) nows key"

text \<open>A cache of capacity two that holds an entry expiring at 10 and one expiring at 2000.\<close>

definition cache_ab :: "nat DnsCache" where
  "cache_ab = \<lparr>store = [(''a'', \<lparr>data = 1, expiresAt = 10\<rparr>), (''b'', \<lparr>data = 2, expiresAt = 2000\<rparr>)],
               maxEntries = 2, ttlMs = 600000\<rparr>"

section \<open>Strings\<close>

definition CR :: char where "CR = CHR 0x0D"
definition LF :: char where "LF = CHR 0x0A"
definition CRLF :: string where "CRLF = [CR, LF]"

text \<open>White space and line terminators of ECMAScript among the code points 0 to 255.\<close>

definition isSpace :: "char \<Rightarrow> bool" where
  "isSpace c = ((of_char c :: nat) \<in> {9, 10, 11, 12, 13, 32, 160})"

definition trim :: "string \<Rightarrow> string" where
  "trim s = rev (dropWhile isSpace (rev (dropWhile isSpace s)))"

definition startsWith :: "string \<Rightarrow> string \<Rightarrow> bool" where
  "startsWith s p = (take (length p) s = p)"

definition isDigit :: "char \<Rightarrow> bool" where
  "isDigit c = (48 \<le> (of_char c :: nat) \<and> (of_char c :: nat) \<le> 57)"

definition lowerChar :: "char \<Rightarrow> char" where
  "lowerChar c =
     (let n = (of_char c :: nat) in
      if (65 \<le> n \<and> n \<le> 90) \<or> (192 \<le> n \<and> n \<le> 222 \<and> n \<noteq> 215) then char_of (n + 32) else c)"

definition toLowerCase :: "string \<Rightarrow> string" where
  "toLowerCase s = map lowerChar s"

text \<open>\<open>s.split(c)\<close> for a separator of one character: never an empty list.\<close>

fun splitChar :: "char \<Rightarrow> string \<Rightarrow> string list" where
  "splitChar c [] = [[]]"
| "splitChar c (x # xs) =
     (if x = c then [] # splitChar c xs
      else (case splitChar c xs of p # ps \<Rightarrow> (x # p) # ps | [] \<Rightarrow> [[x]]))"

text \<open>\<open>s.split(/\r?\n/)\<close>.\<close>

fun splitLines :: "string \<Rightarrow> string list" where
  "splitLines [] = [[]]"
| "splitLines [x] = (if x = LF then [[], []] else [[x]])"
| "splitLines (x # y # ys) =
     (if x = LF then [] # splitLines (y # ys)
      else if x = CR \<and> y = LF then [] # splitLines ys
      else (case splitLines (y # ys) of l # ls \<Rightarrow> (x # l) # ls | [] \<Rightarrow> [[x]]))"

text \<open>\<open>text.trim().split(/\r?\n/).pop() ?? ""\<close>\<close>

definition lastLine :: "string \<Rightarrow> string" where
  "lastLine text = (case rev (splitLines (trim text)) of [] \<Rightarrow> [] | l # _ \<Rightarrow> l)"

text \<open>\<open>line.match(/^(\d{3})/)?.[1]\<close>\<close>

definition parseCode :: "string \<Rightarrow> string option" where
  "parseCode line =
     (if length line \<ge> 3 \<and> list_all isDigit (take 3 line) then Some (take 3 line) else None)"

section \<open>Network as seen by one call\<close>

text \<open>
  What a socket emits before the deadline of its probe session, in order. The timer of the
  session fires after the last of these events unless it has been cleared. The model
  quantifies over every such script, so it covers every behaviour of the remote server.
\<close>

datatype SocketEvent = OnData string | OnError string | OnEnd

text \<open>
  The network operations a call performs, in order: a DNS query of a kind for a name, and
  a connection to port 25 of a host.
\<close>

datatype IoAction = DnsResolve string string | SmtpConnect string

section \<open>Probe sessions\<close>

datatype Stage = Greet | Helo | Mailfrom | Rcpt | Done

text \<open>
  The variables captured by the handlers of one connection: \<open>stage\<close> and \<open>resolved\<close>,
  the value \<open>resolve\<close> was called with (\<open>outcome\<close>), what was written to the socket,
  whether the timer is still armed and whether the socket was destroyed.
\<close>

record 'r Session =
  stage :: Stage
  resolved :: bool
  outcome :: "'r option"
  written :: "string list"
  timerArmed :: bool
  destroyed :: bool

definition newSession :: "'r Session" where
  "newSession = \<lparr>stage = Greet, resolved = False, outcome = None, written = [],
                  timerArmed = True, destroyed = False\<rparr>"

definition done' :: "'r \<Rightarrow> ('r, 'z) Session_scheme \<Rightarrow> ('r, 'z) Session_scheme" where
  "done' result s =
     (if resolved s then s
      else s\<lparr>resolved := True, destroyed := True, outcome := Some result\<rparr>)"

definition send :: "string \<Rightarrow> ('r, 'z) Session_scheme \<Rightarrow> ('r, 'z) Session_scheme" where
  "send cmd s = s\<lparr>written := written s @ [cmd @ CRLF]\<rparr>"

definition clearTimeout :: "('r, 'z) Session_scheme \<Rightarrow> ('r, 'z) Session_scheme" where
  "clearTimeout s = s\<lparr>timerArmed := False\<rparr>"

text \<open>
  The invariant of a session: the promise is settled exactly when \<open>resolved\<close> is set, and
  the timer is cleared only in a resolved session.
\<close>

definition sessionOk :: "('r, 'z) Session_scheme \<Rightarrow> bool" where
  "sessionOk s = ((resolved s \<longleftrightarrow> outcome s \<noteq> None) \<and> (\<not> timerArmed s \<longrightarrow> resolved s))"

section \<open>SMTP probe engine: \<open>core/smtp.ts\<close>\<close>

datatype SmtpStatus = SValid | SInvalid | SUnknown

record SmtpProbeResult =
  status :: SmtpStatus
  code :: "string option"

record SmtpSession = "SmtpProbeResult Session" +
  lines :: "string list"

definition smtpSession0 :: SmtpSession where
  "smtpSession0 = Session.extend newSession \<lparr>lines = []\<rparr>"

text \<open>The handler of \<open>data\<close> events in \<open>connectAndProbe\<close>.\<close>

definition onData :: "string \<Rightarrow> string \<Rightarrow> SmtpSession \<Rightarrow> SmtpSession" where
  "onData email text s0 =
     (let s = s0\<lparr>lines := lines s0 @ [text]\<rparr>;
          l = lastLine text
      in case parseCode l of
           None \<Rightarrow> s
         | Some c \<Rightarrow>
             if stage s = Greet then (send ''HELO localhost'' s)\<lparr>stage := Helo\<rparr>
             else if stage s = Helo \<and> startsWith l ''250''
               then (send ''MAIL FROM:<probe@localhost>'' s)\<lparr>stage := Mailfrom\<rparr>
             else if stage s = Mailfrom \<and> startsWith l ''250''
               then (send (''RCPT TO:<'' @ email @ ''>'') s)\<lparr>stage := Rcpt\<rparr>
             else if stage s = Rcpt \<and> startsWith l ''250''
               then done' \<lparr>status = SValid, code = Some c\<rparr>
                      ((send ''QUIT'' (clearTimeout s))\<lparr>stage := Done\<rparr>)
             else if stage s = Rcpt \<and>
                     (startsWith l ''550'' \<or> startsWith l ''551'' \<or> startsWith l ''553'')
               then done' \<lparr>status = SInvalid, code = Some c\<rparr>
                      ((send ''QUIT'' (clearTimeout s))\<lparr>stage := Done\<rparr>)
             else if stage s = Rcpt \<and> startsWith l ''4''
               then done' \<lparr>status = SUnknown, code = Some c\<rparr>
                      ((send ''QUIT'' (clearTimeout s))\<lparr>stage := Done\<rparr>)
             else if startsWith c ''5''
               then done' \<lparr>status = SUnknown, code = Some c\<rparr> ((clearTimeout s)\<lparr>stage := Done\<rparr>)
             else s)"

text \<open>The handlers of \<open>error\<close> and \<open>end\<close>, and the callback of the timer.\<close>

definition onClose :: "SmtpSession \<Rightarrow> SmtpSession" where
  "onClose s = done' \<lparr>status = SUnknown, code = None\<rparr> (clearTimeout s)"

definition onTimeout :: "SmtpSession \<Rightarrow> SmtpSession" where
  "onTimeout s = (if timerArmed s then done' \<lparr>status = SUnknown, code = None\<rparr> s else s)"

fun smtpStep :: "string \<Rightarrow> SmtpSession \<Rightarrow> SocketEvent \<Rightarrow> SmtpSession" where
  "smtpStep email s (OnData text) = onData email text s"
| "smtpStep email s (OnError msg) = onClose s"
| "smtpStep email s OnEnd = onClose s"

text \<open>
  The session after the socket events and the deadline, and the value of the promise:
  \<open>None\<close> would be a promise that never settles.
\<close>

definition smtpRun :: "string \<Rightarrow> SocketEvent list \<Rightarrow> SmtpSession" where
  "smtpRun email events = onTimeout (foldl (smtpStep email) smtpSession0 events)"

definition connectAndProbe :: "(string \<Rightarrow> SocketEvent list) \<Rightarrow> string \<Rightarrow> string \<Rightarrow> SmtpProbeResult option" where
  "connectAndProbe net host email = outcome (smtpRun email (net host))"

section \<open>DNS resolver: \<open>core/dns.ts\<close>\<close>

datatype DnsError = DnsTimeout | DnsFailure string

datatype 'a ResolveResult = ResolveOk 'a | ResolveErr DnsError

record MxRecord =
  exchange :: string
  priority :: int

text \<open>
  The cache and the network as one call of \<open>checkDNS\<close> sees them. \<open>cachedMx name\<close> is the
  envelope that \<open>cache?.get(makeCacheKey("MX", name))\<close> yields at the time of the call
  (\<open>None\<close> without a cache, on a miss and on an expired entry), and \<open>queryMx name\<close> is
  how \<open>withTimeout(dns.resolveMx(name), timeoutMs)\<close> settles: \<open>Inl\<close> when it rejects, a
  timeout included. The writes of \<open>resolveCached\<close> to the cache happen after every read of
  the same call and do not change what the call returns; the cache itself is the subject
  of the section on \<open>core/cache.ts\<close>.
\<close>

record DnsEnv =
  cachedMx :: "string \<Rightarrow> MxRecord list ResolveResult option"
  cachedTxt :: "string \<Rightarrow> string list list ResolveResult option"
  cachedA :: "string \<Rightarrow> string list ResolveResult option"
  cachedAAAA :: "string \<Rightarrow> string list ResolveResult option"
  queryMx :: "string \<Rightarrow> DnsError + MxRecord list"
  queryTxt :: "string \<Rightarrow> DnsError + string list list"
  query4 :: "string \<Rightarrow> DnsError + string list"
  query6 :: "string \<Rightarrow> DnsError + string list"

definition makeCacheKey :: "string \<Rightarrow> string \<Rightarrow> string" where
  "makeCacheKey kind name = kind @ '':'' @ name"

definition resolveCached :: "'a ResolveResult option \<Rightarrow> DnsError + 'a \<Rightarrow> 'a ResolveResult" where
  "resolveCached hit query =
     (case hit of
        Some d \<Rightarrow> d
      | None \<Rightarrow> (case query of Inr records \<Rightarrow> ResolveOk records | Inl e \<Rightarrow> ResolveErr e))"

definition resolveMx :: "DnsEnv \<Rightarrow> string \<Rightarrow> MxRecord list ResolveResult" where
  "resolveMx env name = resolveCached (cachedMx env name) (queryMx env name)"

definition resolveTxt :: "DnsEnv \<Rightarrow> string \<Rightarrow> string list list ResolveResult" where
  "resolveTxt env name = resolveCached (cachedTxt env name) (queryTxt env name)"

definition resolveA :: "DnsEnv \<Rightarrow> string \<Rightarrow> string list ResolveResult" where
  "resolveA env name = resolveCached (cachedA env name) (query4 env name)"

definition resolveAAAA :: "DnsEnv \<Rightarrow> string \<Rightarrow> string list ResolveResult" where
  "resolveAAAA env name = resolveCached (cachedAAAA env name) (query6 env name)"

definition flattenTxt :: "string list list \<Rightarrow> string list" where
  "flattenTxt records = filter (\<lambda>r. r \<noteq> []) (map concat records)"

definition hasSpfRecord :: "string list \<Rightarrow> bool" where
  "hasSpfRecord records = list_ex (\<lambda>r. startsWith (toLowerCase r) ''v=spf1'') records"

definition hasDmarcRecord :: "string list \<Rightarrow> bool" where
  "hasDmarcRecord records = list_ex (\<lambda>r. startsWith (toLowerCase r) ''v=dmarc1'') records"

definition computeDomainExists :: "bool \<Rightarrow> bool \<Rightarrow> bool \<Rightarrow> bool \<Rightarrow> bool" where
  "computeDomainExists mxFound txtAtRoot hasA hasAAAA = (mxFound \<or> txtAtRoot \<or> hasA \<or> hasAAAA)"

record DnsOptions =
  optMx :: "bool option"
  optSpf :: "bool option"
  optDmarc :: "bool option"
  optTimeoutMs :: "int option"

record DnsResult =
  domain :: string
  domainExists :: bool
  mx :: "bool option"
  spf :: "bool option"
  dmarc :: "bool option"
  mxHosts :: "string list option"

text \<open>A lookup has found records: the envelope is a success with at least one record.\<close>

definition found :: "'a list ResolveResult \<Rightarrow> bool" where
  "found r = (case r of ResolveOk records \<Rightarrow> records \<noteq> [] | ResolveErr _ \<Rightarrow> False)"

text \<open>A TXT lookup has found a record whose text is not empty.\<close>

definition foundText :: "string list list ResolveResult \<Rightarrow> bool" where
  "foundText r = (case r of ResolveOk records \<Rightarrow> flattenTxt records \<noteq> [] | ResolveErr _ \<Rightarrow> False)"

text \<open>
  The DNS queries that \<open>checkDNS\<close> sends, in the order of the source: one for each
  enabled lookup that the cache does not answer (\<open>resolveCached\<close> returns a hit without
  calling \<open>queryFn\<close>).
\<close>

definition dnsLookups :: "DnsEnv \<Rightarrow> string \<Rightarrow> DnsOptions \<Rightarrow> IoAction list" where
  "dnsLookups env d opts =
     (if optMx opts \<noteq> Some False \<and> cachedMx env d = None then [DnsResolve ''MX'' d] else []) @
     (if optSpf opts \<noteq> Some False \<and> cachedTxt env d = None then [DnsResolve ''TXT'' d] else []) @
     (if optDmarc opts \<noteq> Some False \<and> cachedTxt env (''_dmarc.'' @ d) = None
      then [DnsResolve ''TXT'' (''_dmarc.'' @ d)] else []) @
     (if cachedA env d = None then [DnsResolve ''A'' d] else []) @
     (if cachedAAAA env d = None then [DnsResolve ''AAAA'' d] else [])"

definition checkDNS :: "DnsEnv \<Rightarrow> string \<Rightarrow> DnsOptions \<Rightarrow> DnsResult \<times> IoAction list" where
  "checkDNS env d opts =
     (let checkMx = (optMx opts \<noteq> Some False);
          checkSpf = (optSpf opts \<noteq> Some False);
          checkDmarc = (optDmarc opts \<noteq> Some False);
          result0 = \<lparr>domain = d, domainExists = False, mx = None, spf = None, dmarc = None,
                     mxHosts = None\<rparr>;
          mxRes = (if checkMx then Some (resolveMx env d) else None);
          spfTxtRes = (if checkSpf then Some (resolveTxt env d) else None);
          dmarcTxtRes = (if checkDmarc then Some (resolveTxt env (''_dmarc.'' @ d)) else None);
          aRes = resolveA env d;
          aaaaRes = resolveAAAA env d;
          result1 =
            (if checkMx then
               (case mxRes of
                  Some (ResolveOk records) \<Rightarrow>
                    if length records > 0
                    then result0\<lparr>mx := Some True, mxHosts := Some (map exchange records)\<rparr>
                    else result0\<lparr>mx := Some False\<rparr>
                | _ \<Rightarrow> result0\<lparr>mx := Some False\<rparr>)
             else result0);
          rootTxtRecords =
            (if checkSpf then
               (case spfTxtRes of Some (ResolveOk records) \<Rightarrow> flattenTxt records | _ \<Rightarrow> [])
             else []);
          result2 =
            (if checkSpf then
               (case spfTxtRes of
                  Some (ResolveOk records) \<Rightarrow> result1\<lparr>spf := Some (hasSpfRecord rootTxtRecords)\<rparr>
                | _ \<Rightarrow> result1\<lparr>spf := Some False\<rparr>)
             else result1);
          result3 =
            (if checkDmarc then
               (case dmarcTxtRes of
                  Some (ResolveOk records) \<Rightarrow>
                    result2\<lparr>dmarc := Some (hasDmarcRecord (flattenTxt records))\<rparr>
                | _ \<Rightarrow> result2\<lparr>dmarc := Some False\<rparr>)
             else result2);
          hasA = found aRes;
          hasAAAA = found aaaaRes
      in (result3\<lparr>domainExists :=
                     computeDomainExists (mx result3 = Some True) (length rootTxtRecords > 0)
                       hasA hasAAAA\<rparr>,
          dnsLookups env d opts))"

text \<open>
  Two servers: both greet with 220 and accept \<open>HELO\<close> and \<open>MAIL FROM\<close> with 250; the first
  rejects the recipient with 550, the second accepts it with 250.
\<close>

definition rejectingServer :: "string \<Rightarrow> SocketEvent list" where
  "rejectingServer host =
     [OnData (''220 mx.example.com ESMTP'' @ CRLF), OnData (''250 ok'' @ CRLF),
      OnData (''250 ok'' @ CRLF), OnData (''550 user unknown'' @ CRLF)]"

definition acceptingServer :: "string \<Rightarrow> SocketEvent list" where
  "acceptingServer host =
     [OnData (''220 mx.example.com ESMTP'' @ CRLF), OnData (''250 ok'' @ CRLF),
      OnData (''250 ok'' @ CRLF), OnData (''250 accepted'' @ CRLF)]"

text \<open>A server that defers the recipient with 421 and then closes the connection.\<close>

definition busyServer :: "string \<Rightarrow> SocketEvent list" where
  "busyServer host =
     [OnData (''220 mx.example.com ESMTP'' @ CRLF), OnData (''250 ok'' @ CRLF),
      OnData (''250 ok'' @ CRLF), OnData (''421 busy'' @ CRLF), OnEnd]"

text \<open>A session that has sent \<open>HELO\<close> and waits for the reply.\<close>

definition heloSession :: SmtpSession where
  "heloSession = smtpSession0\<lparr>stage := Helo, written := [''HELO localhost'' @ CRLF]\<rparr>"

text \<open>A session that has sent \<open>RCPT TO\<close> and waits for the reply.\<close>

definition rcptSession :: SmtpSession where
  "rcptSession = smtpSession0\<lparr>stage := Rcpt\<rparr>"

section \<open>\<open>probeSmtp\<close>: \<open>core/smtp.ts\<close>\<close>

text \<open>
  The loop over the MX hosts: the value returned (\<open>None\<close> if a connection never settled)
  and the connections opened, in order.
\<close>

fun probeHosts :: "(string \<Rightarrow> SocketEvent list) \<Rightarrow> string \<Rightarrow> string list
    \<Rightarrow> SmtpProbeResult option \<times> IoAction list" where
  "probeHosts net email [] = (Some \<lparr>status = SUnknown, code = None\<rparr>, [])"
| "probeHosts net email (host # hosts) =
     (case connectAndProbe net host email of
        None \<Rightarrow> (None, [SmtpConnect host])
      | Some result \<Rightarrow>
          if status result \<noteq> SUnknown then (Some result, [SmtpConnect host])
          else (case probeHosts net email hosts of (r, io) \<Rightarrow> (r, SmtpConnect host # io)))"

definition mxOnly :: "int option \<Rightarrow> DnsOptions" where
  "mxOnly t = \<lparr>optMx = Some True, optSpf = Some False, optDmarc = Some False, optTimeoutMs = t\<rparr>"

text \<open>\<open>probeSmtp\<close>: the value returned, the limiter afterwards and the network operations.\<close>

definition probeSmtp :: "DnsEnv \<Rightarrow> (string \<Rightarrow> SocketEvent list) \<Rightarrow> int \<Rightarrow> string \<Rightarrow> string \<Rightarrow> int
    \<Rightarrow> RateLimiter \<Rightarrow> SmtpProbeResult option \<times> RateLimiter \<times> IoAction list" where
  "probeSmtp env net now d email timeout limiter =
     (case allow limiter now d of (allowed, limiter') \<Rightarrow>
        if \<not> allowed then (Some \<lparr>status = SUnknown, code = Some ''rate_limited''\<rparr>, limiter', [])
        else (case checkDNS env d (mxOnly (Some timeout)) of (dnsResult, dnsIo) \<Rightarrow>
          (let hosts = (case mxHosts dnsResult of Some hs \<Rightarrow> hs | None \<Rightarrow> []) in
           if length hosts = 0 then (Some \<lparr>status = SUnknown, code = None\<rparr>, limiter', dnsIo)
           else (case probeHosts net email hosts of (r, io) \<Rightarrow> (r, limiter', dnsIo @ io)))))"

text \<open>
  Notions for stating what \<open>probeSmtp\<close> returns: a host whose probe settles with a status
  other than unknown, the hosts that the loop connects to (those before the first such
  host, and that host), and the MX hosts that the DNS step of \<open>probeSmtp\<close> yields.
\<close>

definition definitive :: "(string \<Rightarrow> SocketEvent list) \<Rightarrow> string \<Rightarrow> string \<Rightarrow> bool" where
  "definitive net email host =
     (case connectAndProbe net host email of Some r \<Rightarrow> status r \<noteq> SUnknown | None \<Rightarrow> False)"

definition hostsTried :: "(string \<Rightarrow> bool) \<Rightarrow> string list \<Rightarrow> string list" where
  "hostsTried stops hosts = take (Suc (length (takeWhile (\<lambda>h. \<not> stops h) hosts))) hosts"

definition mxHostList :: "DnsEnv \<Rightarrow> string \<Rightarrow> int \<Rightarrow> string list" where
  "mxHostList env d timeout =
     (case mxHosts (fst (checkDNS env d (mxOnly (Some timeout)))) of Some hs \<Rightarrow> hs | None \<Rightarrow> [])"

text \<open>
  A domain with two MX hosts and no other record, seen without a cache, and a network in
  which the first MX host refuses the connection and the second rejects the recipient.
\<close>

definition exampleDns :: DnsEnv where
  "exampleDns =
     \<lparr>cachedMx = (\<lambda>name. None), cachedTxt = (\<lambda>name. None), cachedA = (\<lambda>name. None),
      cachedAAAA = (\<lambda>name. None),
      queryMx = (\<lambda>name. Inr [\<lparr>exchange = ''mx1.example.com'', priority = 10\<rparr>,
                              \<lparr>exchange = ''mx2.example.com'', priority = 20\<rparr>]),
      queryTxt = (\<lambda>name. Inl (DnsFailure ''ENODATA'')),
      query4 = (\<lambda>name. Inl (DnsFailure ''ENODATA'')),
      query6 = (\<lambda>name. Inl (DnsFailure ''ENODATA''))\<rparr>"

definition exampleNet :: "string \<Rightarrow> SocketEvent list" where
  "exampleNet host =
     (if host = ''mx1.example.com'' then [OnError ''connect ECONNREFUSED''] else rejectingServer host)"

section \<open>Catch-all detector: \<open>core/catchAll.ts\<close>\<close>

datatype Confidence = High | Low

datatype CatchAllMethod = SmtpProbe | Heuristic | MethodUnknown

record CatchAllResult =
  isCatchAll :: bool
  caConfidence :: Confidence
  caMethod :: CatchAllMethod
  details :: "string option"

record CatchAllProbe =
  accepts :: bool
  probeCode :: "string option"
  error :: "string option"

text \<open>\<open>randomPart\<close> stands for \<open>crypto.randomBytes(16).toString("hex")\<close>.\<close>

definition generateRandomEmail :: "string \<Rightarrow> string \<Rightarrow> string" where
  "generateRandomEmail randomPart d = ''catch-all-test-'' @ randomPart @ ''@'' @ d"

text \<open>The handler of \<open>data\<close> events in \<open>smtpCatchAllProbe\<close>.\<close>

definition caOnData :: "string \<Rightarrow> string \<Rightarrow> CatchAllProbe Session \<Rightarrow> CatchAllProbe Session" where
  "caOnData testEmail text s =
     (let l = lastLine text
      in case parseCode l of
           None \<Rightarrow> s
         | Some c \<Rightarrow>
             if stage s = Greet then (send ''HELO localhost'' s)\<lparr>stage := Helo\<rparr>
             else if stage s = Helo \<and> startsWith l ''250''
               then (send ''MAIL FROM:<probe@localhost>'' s)\<lparr>stage := Mailfrom\<rparr>
             else if stage s = Mailfrom \<and> startsWith l ''250''
               then (send (''RCPT TO:<'' @ testEmail @ ''>'') s)\<lparr>stage := Rcpt\<rparr>
             else if stage s = Rcpt then
               (let s' = (send ''QUIT'' (clearTimeout s))\<lparr>stage := Done\<rparr> in
                if startsWith l ''250''
                  then done' \<lparr>accepts = True, probeCode = Some c, error = None\<rparr> s'
                else if startsWith l ''550'' \<or> startsWith l ''551'' \<or> startsWith l ''553''
                  then done' \<lparr>accepts = False, probeCode = Some c, error = None\<rparr> s'
                else if startsWith l ''4''
                  then done' \<lparr>accepts = False, probeCode = Some c,
                               error = Some ''temporary_error''\<rparr> s'
                else done' \<lparr>accepts = False, probeCode = Some c,
                             error = Some ''unexpected_response''\<rparr> s')
             else if startsWith c ''5''
               then done' \<lparr>accepts = False, probeCode = Some c, error = Some ''rejected_early''\<rparr>
                      ((clearTimeout s)\<lparr>stage := Done\<rparr>)
             else s)"

fun caStep :: "string \<Rightarrow> CatchAllProbe Session \<Rightarrow> SocketEvent \<Rightarrow> CatchAllProbe Session" where
  "caStep testEmail s (OnData text) = caOnData testEmail text s"
| "caStep testEmail s (OnError msg) =
     done' \<lparr>accepts = False, probeCode = None, error = Some msg\<rparr> (clearTimeout s)"
| "caStep testEmail s OnEnd =
     done' \<lparr>accepts = False, probeCode = None, error = Some ''connection_closed''\<rparr> (clearTimeout s)"

definition caOnTimeout :: "CatchAllProbe Session \<Rightarrow> CatchAllProbe Session" where
  "caOnTimeout s =
     (if timerArmed s then done' \<lparr>accepts = False, probeCode = None, error = Some ''timeout''\<rparr> s
      else s)"

definition caRun :: "string \<Rightarrow> SocketEvent list \<Rightarrow> CatchAllProbe Session" where
  "caRun testEmail events = caOnTimeout (foldl (caStep testEmail) newSession events)"

definition smtpCatchAllProbe :: "(string \<Rightarrow> SocketEvent list) \<Rightarrow> string \<Rightarrow> string \<Rightarrow> CatchAllProbe option" where
  "smtpCatchAllProbe net host testEmail = outcome (caRun testEmail (net host))"

text \<open>The truthiness of an optional string: \<open>undefined\<close> and the empty string are falsy.\<close>

definition truthy :: "string option \<Rightarrow> bool" where
  "truthy x = (case x of None \<Rightarrow> False | Some v \<Rightarrow> v \<noteq> [])"

definition couldNotDetermine :: CatchAllResult where
  "couldNotDetermine = \<lparr>isCatchAll = False, caConfidence = Low, caMethod = MethodUnknown,
                        details = Some ''Could not connect to any MX host''\<rparr>"

definition acceptedBy :: "string \<Rightarrow> CatchAllResult" where
  "acceptedBy host = \<lparr>isCatchAll = True, caConfidence = High, caMethod = SmtpProbe,
                      details = Some (''Random address accepted by '' @ host)\<rparr>"

definition rejectedWith :: "string option \<Rightarrow> CatchAllResult" where
  "rejectedWith c = \<lparr>isCatchAll = False, caConfidence = High, caMethod = SmtpProbe,
     details = Some (''Random address rejected with code '' @
                     (case c of Some v \<Rightarrow> v | None \<Rightarrow> ''undefined''))\<rparr>"

text \<open>The loop of \<open>checkCatchAll\<close> over the MX hosts.\<close>

fun catchAllHosts :: "(string \<Rightarrow> SocketEvent list) \<Rightarrow> string \<Rightarrow> string list
    \<Rightarrow> CatchAllResult option \<times> IoAction list" where
  "catchAllHosts net testEmail [] = (Some couldNotDetermine, [])"
| "catchAllHosts net testEmail (host # hosts) =
     (case smtpCatchAllProbe net host testEmail of
        None \<Rightarrow> (None, [SmtpConnect host])
      | Some result \<Rightarrow>
          if truthy (error result)
          then (case catchAllHosts net testEmail hosts of (r, io) \<Rightarrow> (r, SmtpConnect host # io))
          else if accepts result then (Some (acceptedBy host), [SmtpConnect host])
          else (Some (rejectedWith (probeCode result)), [SmtpConnect host]))"

definition checkCatchAll :: "DnsEnv \<Rightarrow> (string \<Rightarrow> SocketEvent list) \<Rightarrow> string \<Rightarrow> string \<Rightarrow> int option
    \<Rightarrow> CatchAllResult option \<times> IoAction list" where
  "checkCatchAll env net randomPart d optTimeout =
     (let timeout = (case optTimeout of Some t \<Rightarrow> t | None \<Rightarrow> 5000) in
      case checkDNS env d (mxOnly (Some timeout)) of (dnsResult, dnsIo) \<Rightarrow>
        (let hosts = (case mxHosts dnsResult of Some hs \<Rightarrow> hs | None \<Rightarrow> []) in
         if length hosts = 0
         then (Some \<lparr>isCatchAll = False, caConfidence = Low, caMethod = MethodUnknown,
                      details = Some ''No MX records found''\<rparr>, dnsIo)
         else (case catchAllHosts net (generateRandomEmail randomPart d) hosts of
                 (r, io) \<Rightarrow> (r, dnsIo @ io))))"

text \<open>
  Notions for stating what \<open>checkCatchAll\<close> returns: a host whose probe settles without
  an error, which ends the loop.
\<close>

definition conclusive :: "(string \<Rightarrow> SocketEvent list) \<Rightarrow> string \<Rightarrow> string \<Rightarrow> bool" where
  "conclusive net testEmail host =
     (case smtpCatchAllProbe net host testEmail of Some r \<Rightarrow> \<not> truthy (error r) | None \<Rightarrow> False)"


text \<open>
  A network in which the first MX host never replies and the second accepts every
  recipient, and a domain without any record.
\<close>

definition acceptingNet :: "string \<Rightarrow> SocketEvent list" where
  "acceptingNet host = (if host = ''mx1.example.com'' then [] else acceptingServer host)"

text \<open>
  A network in which the first MX host answers \<open>HELO\<close> with 554 and the second rejects the
  recipient with 550.
\<close>

definition earlyRejectNet :: "string \<Rightarrow> SocketEvent list" where
  "earlyRejectNet host =
     (if host = ''mx1.example.com''
      then [OnData (''220 mx.example.com ESMTP'' @ CRLF), OnData (''554 no service'' @ CRLF)]
      else rejectingServer host)"


text \<open>A catch-all session that has sent \<open>RCPT TO\<close> and waits for the reply.\<close>

definition caRcptSession :: "CatchAllProbe Session" where
  "caRcptSession = newSession\<lparr>stage := Rcpt\<rparr>"

section \<open>Normalisation: \<open>core/normalize.ts\<close>\<close>

record Normalized =
  ok :: bool
  reason :: "string option"
  localPart :: "string option"
  domainN :: "string option"
  normalizedEmail :: "string option"
  dnsDomain :: "string option"

definition normFail :: "string \<Rightarrow> Normalized" where
  "normFail r = \<lparr>ok = False, reason = Some r, localPart = None, domainN = None,
                 normalizedEmail = None, dnsDomain = None\<rparr>"

text \<open>
  \<open>toAscii\<close> stands for \<open>domainToASCII\<close> of \<open>node:url\<close>; \<open>None\<close> is the exception that
  the source catches.
\<close>

definition normalizeEmail :: "(string \<Rightarrow> string option) \<Rightarrow> string \<Rightarrow> Normalized" where
  "normalizeEmail toAscii email =
     (let trimmed = trim email;
          parts = splitChar CHR ''@'' trimmed
      in case parts of
           [lp, domainRaw] \<Rightarrow>
             if lp = [] then normFail ''Email local part is missing''
             else if domainRaw = [] then normFail ''Email domain is missing''
             else (let d = toLowerCase domainRaw;
                       ne = lp @ ''@'' @ d
                   in case toAscii d of
                        None \<Rightarrow> normFail ''Email domain is invalid''
                      | Some ascii \<Rightarrow>
                          if ascii = [] then normFail ''Email domain is invalid''
                          else \<lparr>ok = True, reason = None, localPart = Some lp, domainN = Some d,
                                normalizedEmail = Some ne, dnsDomain = Some ascii\<rparr>)
         | _ \<Rightarrow> normFail ''Email must contain a single @ symbol'')"

section \<open>Pipeline: \<open>verify.ts\<close>\<close>

datatype SyntaxMode = Basic | Rfc

datatype PatternSeverity = PHigh | PMedium | PLow

record Weights =
  typo :: real
  disposable :: real
  noMx :: real
  noSpf :: real
  noDmarc :: real
  smtpInvalid :: real
  smtpUnknown :: real
  catchAll :: real
  roleEmail :: real
  patternHigh :: real
  patternMedium :: real
  patternLow :: real
  plusAddressing :: real

definition DEFAULT_WEIGHTS :: Weights where
  "DEFAULT_WEIGHTS = \<lparr>typo = 25, disposable = 60, noMx = 50, noSpf = 10, noDmarc = 10,
     smtpInvalid = 80, smtpUnknown = 5, catchAll = 10, roleEmail = 5, patternHigh = 20,
     patternMedium = 10, patternLow = 5, plusAddressing = 3\<rparr>"

text \<open>
  The options of a call after \<open>resolveOptions\<close> has filled in the defaults, with the
  weights and thresholds after the overrides of the caller have been merged in.
\<close>

record RuntimeOptions =
  mode :: SyntaxMode
  typoSuggestions :: bool
  disposableEnabled :: bool
  patternsEnabled :: bool
  roleEmailEnabled :: bool
  catchAllEnabled :: bool
  dnsMx :: bool
  dnsSpf :: bool
  dnsDmarc :: bool
  dnsTimeoutMs :: int
  smtpEnabled :: bool
  smtpTimeoutMs :: int
  maxConnectionsPerDomainPerMinute :: JsNumber
  catchAllTimeoutMs :: int
  weights :: Weights
  thresholds :: Thresholds

text \<open>
  The collaborators whose answers the pipeline only consumes: \<open>domainToASCII\<close>,
  \<open>validateSyntax\<close> (\<open>ok\<close> and \<open>reason\<close>), \<open>isRoleEmail\<close> (\<open>isRole\<close> and \<open>category\<close>),
  \<open>detectPatterns\<close> (the severity of each signal), the flag \<open>plusTagRemoved\<close> of
  \<open>getCanonicalEmail\<close>, \<open>suggestTypo\<close> (\<open>suggestedEmail\<close>) and \<open>checkDisposable\<close> (\<open>ok\<close>).
\<close>

record Collaborators =
  domainToASCII :: "string \<Rightarrow> string option"
  validateSyntax :: "string \<Rightarrow> SyntaxMode \<Rightarrow> bool \<times> string option"
  isRoleEmail :: "string \<Rightarrow> bool \<times> string option"
  detectPatterns :: "string \<Rightarrow> PatternSeverity list"
  plusTagRemoved :: "string \<Rightarrow> string list option \<Rightarrow> bool"
  suggestTypo :: "string \<Rightarrow> string option"
  checkDisposable :: "string \<Rightarrow> bool"

text \<open>
  The clock, the random bytes and the network of one validation: the cache and the DNS as
  seen by the DNS step, by the SMTP probe and by the catch-all check, and the scripts of
  the SMTP servers for the probe and for the catch-all check. The pool of DNS caches of
  the module is part of these views; the pool of rate limiters is explicit state.
\<close>

record World =
  clock :: int
  randomHex :: string
  dnsEnv :: DnsEnv
  smtpDnsEnv :: DnsEnv
  catchAllDnsEnv :: DnsEnv
  smtpNet :: "string \<Rightarrow> SocketEvent list"
  catchAllNet :: "string \<Rightarrow> SocketEvent list"

text \<open>Of the result, the verdict, the confidence and the reasons are modelled.\<close>

record PMEmailResult =
  email :: string
  resultEmail :: string
  verdict :: Verdict
  confidence :: real
  reasons :: "string list"

definition buildInvalidResult :: "string \<Rightarrow> string \<Rightarrow> string \<Rightarrow> PMEmailResult" where
  "buildInvalidResult e ne r =
     \<lparr>email = e, resultEmail = ne, verdict = VInvalid, confidence = 0, reasons = [r]\<rparr>"

type_synonym LimiterPool = "JsNumber \<rightharpoonup> RateLimiter"

definition getLimiter :: "LimiterPool \<Rightarrow> JsNumber \<Rightarrow> RateLimiter \<times> LimiterPool" where
  "getLimiter pool l =
     (case pool l of
        Some limiter \<Rightarrow> (limiter, pool)
      | None \<Rightarrow> (RateLimiter_new l (60 * 1000), pool(l \<mapsto> RateLimiter_new l (60 * 1000))))"

definition getPatternImpact :: "PatternSeverity \<Rightarrow> Weights \<Rightarrow> real" where
  "getPatternImpact severity w =
     (case severity of PHigh \<Rightarrow> patternHigh w | PMedium \<Rightarrow> patternMedium w | PLow \<Rightarrow> patternLow w)"

text \<open>The running score and the reasons collected so far.\<close>

record Acc =
  score :: real
  why :: "string list"

definition deduct :: "real \<Rightarrow> string list \<Rightarrow> Acc \<Rightarrow> Acc" where
  "deduct w rs a = \<lparr>score = score a - w, why = why a @ rs\<rparr>"

text \<open>Steps 6 to 11: the deductions that need no network beyond the DNS step.\<close>

definition localSignals :: "Collaborators \<Rightarrow> RuntimeOptions \<Rightarrow> string \<Rightarrow> string \<Rightarrow> string
    \<Rightarrow> DnsResult \<Rightarrow> Acc" where
  "localSignals co opts lp d ne dnsResult =
     (let w = weights opts;
          a0 = \<lparr>score = 100, why = []\<rparr>;
          a1 = (if roleEmailEnabled opts \<and> fst (isRoleEmail co lp)
                then deduct (roleEmail w)
                       [''Role-based email address ('' @
                        (case snd (isRoleEmail co lp) of Some c \<Rightarrow> c | None \<Rightarrow> ''generic'') @ '')''] a0
                else a0);
          patterns = detectPatterns co lp;
          a2 = (if patternsEnabled opts \<and> length patterns > 0
                then deduct (sum_list (map (\<lambda>p. getPatternImpact p w) patterns))
                       (if PHigh \<in> set patterns then [''Suspicious email pattern detected''] else []) a1
                else a1);
          a3 = (if plusTagRemoved co ne (mxHosts dnsResult) then deduct (plusAddressing w) [] a2 else a2);
          a4 = (if typoSuggestions opts \<and> truthy (suggestTypo co ne)
                then deduct (typo w)
                       [''Domain looks misspelled. Did you mean '' @
                        (case suggestTypo co ne of Some suggested \<Rightarrow> suggested | None \<Rightarrow> []) @ ''?''] a3
                else a3);
          a5 = (if disposableEnabled opts \<and> checkDisposable co d
                then deduct (disposable w) [''Disposable email domain detected''] a4 else a4);
          a6 = (if dnsMx opts \<and> mx dnsResult = Some False
                then deduct (noMx w) [''No MX records found; email delivery likely fails''] a5 else a5);
          a7 = (if dnsSpf opts \<and> spf dnsResult = Some False
                then deduct (noSpf w) [''No SPF record found''] a6 else a6);
          a8 = (if dnsDmarc opts \<and> dmarc dnsResult = Some False
                then deduct (noDmarc w) [''No DMARC record found''] a7 else a7)
      in a8)"

text \<open>Step 12, the optional SMTP probe.\<close>

definition smtpStage :: "World \<Rightarrow> RuntimeOptions \<Rightarrow> string \<Rightarrow> string \<Rightarrow> LimiterPool \<Rightarrow> Acc
    \<Rightarrow> (Acc \<times> LimiterPool \<times> IoAction list) option" where
  "smtpStage world opts d ne pool a =
     (if smtpEnabled opts then
        (case getLimiter pool (maxConnectionsPerDomainPerMinute opts) of (limiter, pool1) \<Rightarrow>
         case probeSmtp (smtpDnsEnv world) (smtpNet world) (clock world) d ne (smtpTimeoutMs opts) limiter of
           (None, limiter', io) \<Rightarrow> None
         | (Some smtpResult, limiter', io) \<Rightarrow>
             (let pool2 = pool1(maxConnectionsPerDomainPerMinute opts \<mapsto> limiter');
                  w = weights opts
              in if status smtpResult = SInvalid
                   then Some (deduct (smtpInvalid w) [''SMTP server rejected recipient''] a, pool2, io)
                 else if status smtpResult = SUnknown
                   then Some (deduct (smtpUnknown w) [] a, pool2, io)
                 else Some (a, pool2, io)))
      else Some (a, pool, []))"

text \<open>Step 13, the optional catch-all check.\<close>

definition catchAllStage :: "World \<Rightarrow> RuntimeOptions \<Rightarrow> string \<Rightarrow> DnsResult \<Rightarrow> Acc
    \<Rightarrow> (Acc \<times> IoAction list) option" where
  "catchAllStage world opts d dnsResult a =
     (if catchAllEnabled opts \<and> (case mxHosts dnsResult of Some hs \<Rightarrow> length hs > 0 | None \<Rightarrow> False)
      then (case checkCatchAll (catchAllDnsEnv world) (catchAllNet world) (randomHex world) d
                   (Some (catchAllTimeoutMs opts)) of
              (None, io) \<Rightarrow> None
            | (Some r, io) \<Rightarrow>
                if isCatchAll r then Some (deduct (catchAll (weights opts)) [] a, io)
                else Some (a, io))
      else Some (a, []))"

text \<open>
  \<open>runValidation\<close>: the result, the pool of limiters afterwards and the network operations
  of the call, in order; \<open>None\<close> if a network step never settled.
\<close>

definition runValidation :: "Collaborators \<Rightarrow> World \<Rightarrow> LimiterPool \<Rightarrow> string \<Rightarrow> RuntimeOptions
    \<Rightarrow> (PMEmailResult \<times> LimiterPool \<times> IoAction list) option" where
  "runValidation co world pool e opts =
     (let normalized = normalizeEmail (domainToASCII co) e in
      case (ok normalized, normalizedEmail normalized, domainN normalized, localPart normalized) of
        (True, Some ne, Some d, Some lp) \<Rightarrow>
          if ne = [] \<or> d = [] \<or> lp = []
          then Some (buildInvalidResult e ne
                       (case reason normalized of Some r \<Rightarrow> r | None \<Rightarrow> ''Invalid email''), pool, [])
          else (case validateSyntax co ne (mode opts) of (syntaxOk, syntaxReason) \<Rightarrow>
            if \<not> syntaxOk
            then Some (buildInvalidResult e ne
                         (case syntaxReason of Some r \<Rightarrow> r | None \<Rightarrow> ''Invalid email syntax''), pool, [])
            else (case checkDNS (dnsEnv world) d
                         \<lparr>optMx = Some (dnsMx opts), optSpf = Some (dnsSpf opts),
                          optDmarc = Some (dnsDmarc opts), optTimeoutMs = Some (dnsTimeoutMs opts)\<rparr> of
                    (dnsResult, io1) \<Rightarrow>
              (case smtpStage world opts d ne pool (localSignals co opts lp d ne dnsResult) of
                 None \<Rightarrow> None
               | Some (a, pool', io2) \<Rightarrow>
                   (case catchAllStage world opts d dnsResult a of
                      None \<Rightarrow> None
                    | Some (a', io3) \<Rightarrow>
                        Some (\<lparr>email = e, resultEmail = ne,
                                verdict = computeVerdict (clampScore (score a')) (Some (thresholds opts)),
                                confidence = clampScore (score a'), reasons = why a'\<rparr>,
                              pool', io1 @ io2 @ io3)))))
      | _ \<Rightarrow>
          Some (buildInvalidResult e
                  (case normalizedEmail normalized of Some ne \<Rightarrow> ne | None \<Rightarrow> trim e)
                  (case reason normalized of Some r \<Rightarrow> r | None \<Rightarrow> ''Invalid email''), pool, []))"

text \<open>
  The options as \<open>resolveOptions\<close> fills them in for a call without options, collaborators
  that raise no signal, and a world made of the example domain and networks above.
\<close>

definition defaultOptions :: RuntimeOptions where
  "defaultOptions =
     \<lparr>mode = Basic, typoSuggestions = True, disposableEnabled = True, patternsEnabled = True,
      roleEmailEnabled = True, catchAllEnabled = False, dnsMx = True, dnsSpf = True,
      dnsDmarc = True, dnsTimeoutMs = 4000, smtpEnabled = False, smtpTimeoutMs = 4000,
      maxConnectionsPerDomainPerMinute = Num 10, catchAllTimeoutMs = 5000,
      weights = DEFAULT_WEIGHTS, thresholds = DEFAULT_THRESHOLDS\<rparr>"

definition plainCollaborators :: Collaborators where
  "plainCollaborators =
     \<lparr>domainToASCII = (\<lambda>d. Some d), validateSyntax = (\<lambda>ne m. (True, None)),
      isRoleEmail = (\<lambda>lp. (False, None)), detectPatterns = (\<lambda>lp. []),
      plusTagRemoved = (\<lambda>ne hosts. False), suggestTypo = (\<lambda>ne. None),
      checkDisposable = (\<lambda>d. False)\<rparr>"

definition exampleWorld :: World where
  "exampleWorld =
     \<lparr>clock = 0, randomHex = ''0123456789abcdef0123456789abcdef'', dnsEnv = exampleDns,
      smtpDnsEnv = exampleDns, catchAllDnsEnv = exampleDns, smtpNet = exampleNet,
      catchAllNet = acceptingNet\<rparr>"

text \<open>What the claims on the pipeline observe of a run: verdict, confidence and network operations.\<close>

definition observed :: "(PMEmailResult \<times> LimiterPool \<times> IoAction list) option
    \<Rightarrow> (Verdict \<times> real \<times> IoAction list) option" where
  "observed run = (case run of None \<Rightarrow> None | Some (r, pool, io) \<Rightarrow> Some (verdict r, confidence r, io))"

section \<open>Verification: scoring\<close>

lemma computeVerdict_default: "computeVerdict s None = computeVerdict s (Some DEFAULT_THRESHOLDS)"
  by (simp add: computeVerdict_def)

text \<open>
  Claim C9. \<open>computeVerdict\<close> is monotonic in the score: for every threshold triple (the
  default one included) and all scores \<open>s1 \<le> s2\<close>, the tier of the verdict of \<open>s2\<close>, in
  the order invalid < unknown < risky < valid, is at least the tier of the verdict of
  \<open>s1\<close>. The verdict is valid when the score reaches the valid threshold, else risky when
  it reaches the risky threshold, else unknown when it reaches the unknown threshold,
  else invalid.
\<close>

theorem computeVerdict_monotone:
  "(s1 \<le> s2 \<longrightarrow> tier (computeVerdict s1 t) \<le> tier (computeVerdict s2 t)) \<and>
   computeVerdict s (Some th) =
     (if s \<ge> valid th then VValid
      else if s \<ge> risky th then VRisky
      else if s \<ge> unknown th then VUnknown
      else VInvalid)"
  by (simp add: computeVerdict_def Let_def)

theorem computeVerdict_monotone_witness:
  "(59::real) \<le> 85 \<and> tier (computeVerdict 59 None) \<le> tier (computeVerdict 85 None) \<and>
   computeVerdict 59 (Some DEFAULT_THRESHOLDS) = VUnknown \<and>
   computeVerdict 85 (Some DEFAULT_THRESHOLDS) = VValid"
  using computeVerdict_monotone [of 59 85 None 59 DEFAULT_THRESHOLDS]
    computeVerdict_default [of 85]
  by (simp add: computeVerdict_def DEFAULT_THRESHOLDS_def)

section \<open>Verification: rate limiter\<close>

lemma allow_fst:
  "fst (allow rl now key) \<longleftrightarrow>
     \<not> js_ge (length (filter (\<lambda>ts. ts \<ge> now - windowMs rl) (bucket rl key))) (limit rl)"
  by (auto simp: allow_def bucket_def Let_def)

text \<open>Unless the limit is NaN, \<open>n >= limit\<close> fails exactly when \<open>n < limit\<close> holds.\<close>

lemma js_lt_iff: "x \<noteq> NaN \<Longrightarrow> js_lt n x \<longleftrightarrow> \<not> js_ge n x"
  by (cases x) auto

lemma allow_below_limit:
  "limit rl \<noteq> NaN \<Longrightarrow>
     fst (allow rl now key) \<longleftrightarrow>
       js_lt (length (filter (\<lambda>ts. ts \<ge> now - windowMs rl) (bucket rl key))) (limit rl)"
  by (simp add: allow_fst js_lt_iff)

lemma allow_bucket_same:
  "bucket (snd (allow rl now key)) key =
     (if fst (allow rl now key)
      then filter (\<lambda>ts. ts \<ge> now - windowMs rl) (bucket rl key) @ [now]
      else filter (\<lambda>ts. ts \<ge> now - windowMs rl) (bucket rl key))"
  by (auto simp: allow_def bucket_def Let_def)

lemma allow_bucket_other: "k \<noteq> key \<Longrightarrow> bucket (snd (allow rl now key)) k = bucket rl k"
  by (auto simp: allow_def bucket_def Let_def)

lemma allow_params [simp]:
  "limit (snd (allow rl now key)) = limit rl"
  "windowMs (snd (allow rl now key)) = windowMs rl"
  by (auto simp: allow_def Let_def)

lemma filter_length_real: "real (length xs) < x \<Longrightarrow> real (length (filter P xs)) < x"
  using length_filter_le [of P xs] by linarith

lemma allow_within_limit:
  assumes "within_limit rl"
  shows "within_limit (snd (allow rl now key))"
proof (cases "limit rl")
  case (Num l)
  from assms Num have h: "\<And>k. real (length (bucket rl k)) < l + 1"
    by (simp add: within_limit_def)
  have "real (length (bucket (snd (allow rl now key)) k)) < l + 1" for k
  proof (cases "k = key")
    case False
    then show ?thesis using h by (simp add: allow_bucket_other)
  next
    case same: True
    show ?thesis
    proof (cases "fst (allow rl now key)")
      case True
      with same Num show ?thesis using allow_fst [of rl now key] by (simp add: allow_bucket_same)
    next
      case False
      with same show ?thesis
        using filter_length_real [OF h [of key]] by (simp add: allow_bucket_same)
    qed
  qed
  with Num show ?thesis by (simp add: within_limit_def)
qed (simp_all add: within_limit_def)

lemma allow_all_params [simp]:
  "limit (allow_all rl calls) = limit rl"
  "windowMs (allow_all rl calls) = windowMs rl"
  by (induction rl calls rule: allow_all.induct) simp_all

lemma allow_all_within_limit: "within_limit rl \<Longrightarrow> within_limit (allow_all rl calls)"
  by (induction rl calls rule: allow_all.induct) (simp_all add: allow_within_limit)

lemma allow_all_append: "allow_all rl (xs @ ys) = allow_all (allow_all rl xs) ys"
  by (induction rl xs rule: allow_all.induct) simp_all

lemma new_within_limit: "- 1 < l \<Longrightarrow> within_limit (RateLimiter_new (Num l) w)"
  by (simp add: within_limit_def RateLimiter_new_def bucket_def)

lemma allow_fresh_window:
  "0 \<le> windowMs rl \<Longrightarrow> \<forall>ts \<in> set (bucket (snd (allow rl now key)) key). now - windowMs rl \<le> ts"
  by (auto simp: allow_bucket_same)

lemma allow_all_window:
  assumes "0 \<le> w"
  shows "\<forall>ts \<in> set (bucket (allow_all (RateLimiter_new x w) (calls @ [(now, key)])) key). now - w \<le> ts"
proof -
  let ?rl = "allow_all (RateLimiter_new x w) calls"
  have w: "windowMs ?rl = w" by (simp add: RateLimiter_new_def)
  have "\<forall>ts \<in> set (bucket (snd (allow ?rl now key)) key). now - w \<le> ts"
    using allow_fresh_window [of ?rl now key] assms w by simp
  then show ?thesis by (simp add: allow_all_append)
qed

lemma allow_all_count:
  assumes "- 1 < l"
  shows "real (length (bucket (allow_all (RateLimiter_new (Num l) w) calls) key)) < l + 1"
proof -
  have "within_limit (allow_all (RateLimiter_new (Num l) w) calls)"
    using assms by (simp add: new_within_limit allow_all_within_limit)
  then show ?thesis by (simp add: within_limit_def RateLimiter_new_def)
qed

text \<open>For a whole number, fewer than \<open>limit + 1\<close> is at most \<open>limit\<close>.\<close>

lemma whole_limit:
  assumes "l \<in> \<int>" "real n < l + 1"
  shows "real n \<le> l"
proof -
  from assms(1) obtain z where z: "l = of_int z" by (auto elim: Ints_cases)
  with assms(2) have "int n < z + 1" by linarith
  then have "int n \<le> z" by simp
  with z show ?thesis by simp
qed

lemma allow_example:
  "t + 1000 < t' \<Longrightarrow>
   fst (allow (RateLimiter_new (Num 2) 1000) t k) \<and>
   fst (allow (allow_all (RateLimiter_new (Num 2) 1000) [(t, k)]) t k) \<and>
   \<not> fst (allow (allow_all (RateLimiter_new (Num 2) 1000) [(t, k), (t, k)]) t k) \<and>
   fst (allow (allow_all (RateLimiter_new (Num 2) 1000) [(t, k), (t, k), (t, k)]) t' k)"
  by (simp add: allow_def RateLimiter_new_def Let_def)

text \<open>
  The claim C6 as stated fails for a fractional limit, for a negative limit, for the
  limit NaN and for a negative window. With \<open>limit = 1.5\<close> two calls at one instant are
  admitted and the bucket holds two timestamps, more than the limit. With \<open>limit = -1\<close>
  the call is denied and the bucket is stored empty, which is still more than \<open>limit\<close>
  timestamps. With \<open>limit = NaN\<close> the call is admitted although the count 0 is not below
  the limit, and three calls at one instant leave three timestamps. With
  \<open>windowMs = -1000\<close> the timestamp that the call records is itself older than
  \<open>now - windowMs\<close>.
\<close>

theorem allow_limit_counterexample:
  "bucket (allow_all (RateLimiter_new (Num 1.5) 1000)
      [(0, ''example.com''), (0, ''example.com'')]) ''example.com'' = [0, 0] \<and>
   \<not> real (length [0::int, 0]) \<le> 1.5 \<and>
   bucket (allow_all (RateLimiter_new (Num (- 1)) 1000) [(0, ''example.com'')]) ''example.com'' = [] \<and>
   \<not> real (length ([]::int list)) \<le> - 1 \<and>
   fst (allow (RateLimiter_new NaN 1000) 0 ''example.com'') \<and>
   \<not> js_lt (length (filter (\<lambda>ts. ts \<ge> 0 - 1000)
          (bucket (RateLimiter_new NaN 1000) ''example.com''))) NaN \<and>
   bucket (allow_all (RateLimiter_new NaN 1000)
      [(0, ''example.com''), (0, ''example.com''), (0, ''example.com'')]) ''example.com'' =
     [0, 0, 0] \<and>
   bucket (allow_all (RateLimiter_new (Num 2) (- 1000)) [(0, ''example.com'')]) ''example.com'' = [0] \<and>
   \<not> list_all (\<lambda>ts. 0 - (- 1000) \<le> ts) [0::int]"
  by (simp add: allow_def RateLimiter_new_def Let_def bucket_def)

text \<open>
  Claim C6, amended. Every call of \<open>allow\<close> first drops the timestamps of the key that are
  older than \<open>now - windowMs\<close>; it answers true, and records \<open>now\<close>, exactly when
  \<open>count >= limit\<close> fails for the number of remaining timestamps, which for every limit
  other than NaN is exactly when that number is below \<open>limit\<close>; otherwise it answers false
  and leaves the pruned bucket; the buckets of the other keys are untouched. After every
  sequence of calls on a new limiter, the bucket of the key of the last call holds no
  timestamp older than \<open>now - windowMs\<close> if \<open>windowMs \<ge> 0\<close>, and every bucket holds fewer
  than \<open>limit + 1\<close> timestamps if \<open>limit\<close> is a finite number above \<open>-1\<close>: at most \<open>limit\<close> of
  them when \<open>limit\<close> is a whole number. With limit 2 and window 1000, two calls for a key
  at an instant succeed, a third at that instant fails, and a call more than 1000 ms
  later succeeds.
\<close>

theorem allow_sliding_window:
  "(fst (allow rl now key) \<longleftrightarrow>
      \<not> js_ge (length (filter (\<lambda>ts. ts \<ge> now - windowMs rl) (bucket rl key))) (limit rl)) \<and>
   (limit rl \<noteq> NaN \<longrightarrow>
      (fst (allow rl now key) \<longleftrightarrow>
         js_lt (length (filter (\<lambda>ts. ts \<ge> now - windowMs rl) (bucket rl key))) (limit rl))) \<and>
   bucket (snd (allow rl now key)) key =
     (if fst (allow rl now key)
      then filter (\<lambda>ts. ts \<ge> now - windowMs rl) (bucket rl key) @ [now]
      else filter (\<lambda>ts. ts \<ge> now - windowMs rl) (bucket rl key)) \<and>
   (\<forall>k. k \<noteq> key \<longrightarrow> bucket (snd (allow rl now key)) k = bucket rl k) \<and>
   (0 \<le> w \<longrightarrow>
      (\<forall>ts \<in> set (bucket (allow_all (RateLimiter_new x w) (calls @ [(now, key)])) key). now - w \<le> ts)) \<and>
   (- 1 < l \<longrightarrow>
      real (length (bucket (allow_all (RateLimiter_new (Num l) w) calls) k1)) < l + 1 \<and>
      (l \<in> \<int> \<longrightarrow> real (length (bucket (allow_all (RateLimiter_new (Num l) w) calls) k1)) \<le> l)) \<and>
   (t + 1000 < t' \<longrightarrow>
      fst (allow (RateLimiter_new (Num 2) 1000) t k0) \<and>
      fst (allow (allow_all (RateLimiter_new (Num 2) 1000) [(t, k0)]) t k0) \<and>
      \<not> fst (allow (allow_all (RateLimiter_new (Num 2) 1000) [(t, k0), (t, k0)]) t k0) \<and>
      fst (allow (allow_all (RateLimiter_new (Num 2) 1000) [(t, k0), (t, k0), (t, k0)]) t' k0))"
proof -
  have count: "- 1 < l \<longrightarrow>
      real (length (bucket (allow_all (RateLimiter_new (Num l) w) calls) k1)) < l + 1 \<and>
      (l \<in> \<int> \<longrightarrow> real (length (bucket (allow_all (RateLimiter_new (Num l) w) calls) k1)) \<le> l)"
    using allow_all_count [of l w calls k1]
      whole_limit [of l "length (bucket (allow_all (RateLimiter_new (Num l) w) calls) k1)"]
    by blast
  show ?thesis
    using allow_fst [of rl now key] allow_below_limit [of rl now key]
      allow_bucket_same [of rl now key]
      allow_bucket_other [of _ key rl now] allow_all_window [of w x calls now key] count
      allow_example [of t t' k0]
    by blast
qed

theorem allow_sliding_window_witness:
  "fst (allow (RateLimiter_new PosInfinity 1000) 0 ''a.com'') \<and>
   bucket (snd (allow (RateLimiter_new (Num 2) 1000) 0 ''a.com'')) ''a.com'' = [0] \<and>
   bucket (snd (allow (RateLimiter_new (Num 2) 1000) 0 ''a.com'')) ''b.com'' = [] \<and>
   list_all (\<lambda>ts. 1200 - 1000 \<le> ts)
     (bucket (allow_all (RateLimiter_new (Num 2) 1000)
        ([(0, ''a.com''), (400, ''a.com'')] @ [(1200, ''a.com'')])) ''a.com'') \<and>
   real (length (bucket (allow_all (RateLimiter_new (Num 2) 1000)
      [(0, ''a.com''), (400, ''a.com''), (1200, ''a.com'')]) ''a.com'')) \<le> 2 \<and>
   real (length (bucket (allow_all (RateLimiter_new (Num 1.5) 1000)
      [(0, ''a.com''), (0, ''a.com''), (0, ''a.com'')]) ''a.com'')) < 1.5 + 1 \<and>
   \<not> fst (allow (allow_all (RateLimiter_new (Num 2) 1000) [(5, ''a.com''), (5, ''a.com'')]) 5 ''a.com'') \<and>
   fst (allow (allow_all (RateLimiter_new (Num 2) 1000)
      [(5, ''a.com''), (5, ''a.com''), (5, ''a.com'')]) 1006 ''a.com'')"
proof -
  have below: "limit (RateLimiter_new PosInfinity 1000) \<noteq> NaN"
    "js_lt (length (filter (\<lambda>ts. ts \<ge> 0 - windowMs (RateLimiter_new PosInfinity 1000))
        (bucket (RateLimiter_new PosInfinity 1000) ''a.com''))) (limit (RateLimiter_new PosInfinity 1000))"
    by (simp_all add: RateLimiter_new_def)
  have w1: "fst (allow (RateLimiter_new PosInfinity 1000) 0 ''a.com'')"
    using allow_sliding_window [where rl = "RateLimiter_new PosInfinity 1000" and now = 0
        and key = "''a.com''", THEN conjunct2, THEN conjunct1] below
    by blast
  have first: "fst (allow (RateLimiter_new (Num 2) 1000) 0 ''a.com'')"
    "filter (\<lambda>ts. ts \<ge> 0 - windowMs (RateLimiter_new (Num 2) 1000))
       (bucket (RateLimiter_new (Num 2) 1000) ''a.com'') = []"
    "bucket (RateLimiter_new (Num 2) 1000) ''b.com'' = []"
    "''b.com'' \<noteq> ''a.com''"
    by (simp_all add: allow_def RateLimiter_new_def Let_def bucket_def)
  have w2: "bucket (snd (allow (RateLimiter_new (Num 2) 1000) 0 ''a.com'')) ''a.com'' = [0]"
    using allow_sliding_window [where rl = "RateLimiter_new (Num 2) 1000" and now = 0
        and key = "''a.com''", THEN conjunct2, THEN conjunct2, THEN conjunct1] first(1,2)
    by simp
  have w3: "bucket (snd (allow (RateLimiter_new (Num 2) 1000) 0 ''a.com'')) ''b.com'' = []"
    using allow_sliding_window [where rl = "RateLimiter_new (Num 2) 1000" and now = 0
        and key = "''a.com''", THEN conjunct2, THEN conjunct2, THEN conjunct2, THEN conjunct1]
      first(3,4)
    by simp
  have w4: "list_all (\<lambda>ts. 1200 - 1000 \<le> ts)
      (bucket (allow_all (RateLimiter_new (Num 2) 1000)
         ([(0, ''a.com''), (400, ''a.com'')] @ [(1200, ''a.com'')])) ''a.com'')"
    using allow_sliding_window [where w = 1000 and x = "Num 2" and now = 1200
        and key = "''a.com''" and calls = "[(0, ''a.com''), (400, ''a.com'')]",
        THEN conjunct2, THEN conjunct2, THEN conjunct2, THEN conjunct2, THEN conjunct1]
    by (simp only: list_all_iff) simp
  have w5: "real (length (bucket (allow_all (RateLimiter_new (Num 2) 1000)
      [(0, ''a.com''), (400, ''a.com''), (1200, ''a.com'')]) ''a.com'')) \<le> 2"
    using allow_sliding_window [where l = 2 and w = 1000 and ?k1.0 = "''a.com''"
        and calls = "[(0, ''a.com''), (400, ''a.com''), (1200, ''a.com'')]",
        THEN conjunct2, THEN conjunct2, THEN conjunct2, THEN conjunct2, THEN conjunct2,
        THEN conjunct1]
    by simp
  have w6: "real (length (bucket (allow_all (RateLimiter_new (Num 1.5) 1000)
      [(0, ''a.com''), (0, ''a.com''), (0, ''a.com'')]) ''a.com'')) < 1.5 + 1"
    using allow_sliding_window [where l = "1.5" and w = 1000 and ?k1.0 = "''a.com''"
        and calls = "[(0, ''a.com''), (0, ''a.com''), (0, ''a.com'')]",
        THEN conjunct2, THEN conjunct2, THEN conjunct2, THEN conjunct2, THEN conjunct2,
        THEN conjunct1]
    by simp
  have w7: "\<not> fst (allow (allow_all (RateLimiter_new (Num 2) 1000) [(5, ''a.com''), (5, ''a.com'')]) 5 ''a.com'') \<and>
      fst (allow (allow_all (RateLimiter_new (Num 2) 1000)
        [(5, ''a.com''), (5, ''a.com''), (5, ''a.com'')]) 1006 ''a.com'')"
    using allow_sliding_window [where t = 5 and t' = 1006 and ?k0.0 = "''a.com''",
        THEN conjunct2, THEN conjunct2, THEN conjunct2, THEN conjunct2, THEN conjunct2,
        THEN conjunct2]
    by simp
  show ?thesis using w1 w2 w3 w4 w5 w6 w7 by (intro conjI) simp_all
qed

section \<open>Verification: resolver cache\<close>

lemma Map_delete_lookup [simp]:
  "map_of (Map_delete m k) k' = (if k' = k then None else map_of m k')"
  by (induction m) (auto simp: Map_delete_def)

lemma Map_delete_keys: "k \<notin> fst ` set (Map_delete m k)"
  by (auto simp: Map_delete_def)

lemma Map_set_absent: "k \<notin> fst ` set m \<Longrightarrow> Map_set m k v = m @ [(k, v)]"
  by (induction m) auto

lemma Map_set_after_delete [simp]: "Map_set (Map_delete m k) k v = Map_delete m k @ [(k, v)]"
  by (simp add: Map_set_absent Map_delete_keys)

lemma Map_delete_absent: "k \<notin> fst ` set m \<Longrightarrow> Map_delete m k = m"
  by (induction m) (auto simp: Map_delete_def)

lemma Map_has_iff: "Map_has m k \<longleftrightarrow> k \<in> fst ` set m"
  by (simp add: Map_has_def map_of_eq_None_iff)

lemma delete_if_present: "(if Map_has m k then Map_delete m k else m) = Map_delete m k"
  by (simp add: Map_has_iff Map_delete_absent)

lemma DnsCache_set_store:
  "store (DnsCache_set c now key d optTtl) =
     (let ins = inserted c now key d optTtl in
      if int (length ins) > maxEntries c \<and> fst (hd ins) \<noteq> []
      then Map_delete ins (fst (hd ins)) else ins)"
  by (auto simp: DnsCache_set_def inserted_def newEntry_def Let_def delete_if_present
      Map_first_key_def split: list.splits option.splits)

lemma DnsCache_get_present:
  assumes "Map_get (store c) key = Some entry" "now \<le> expiresAt entry"
  shows "fst (DnsCache_get c now key) = Some entry"
    and "store (snd (DnsCache_get c now key)) = Map_delete (store c) key @ [(key, entry)]"
    and "Map_get (store (snd (DnsCache_get c now key))) k = Map_get (store c) k"
    and "maxEntries (snd (DnsCache_get c now key)) = maxEntries c"
    and "ttlMs (snd (DnsCache_get c now key)) = ttlMs c"
  using assms by (auto simp: DnsCache_get_def Map_get_def map_add_def split: option.splits)

lemma DnsCache_get_expired:
  assumes "Map_get (store c) key = Some entry" "now > expiresAt entry"
  shows "fst (DnsCache_get c now key) = None"
    and "store (snd (DnsCache_get c now key)) = Map_delete (store c) key"
    and "Map_get (store (snd (DnsCache_get c now key))) key = None"
  using assms by (auto simp: DnsCache_get_def Map_get_def)

lemma Map_delete_hd:
  assumes "distinct (map fst m)" "m \<noteq> []"
  shows "Map_delete m (fst (hd m)) = tl m"
proof (cases m)
  case Nil
  with assms show ?thesis by simp
next
  case (Cons p ps)
  with assms have "fst p \<notin> fst ` set ps" by auto
  then have "Map_delete ps (fst p) = ps" by (rule Map_delete_absent)
  with Cons show ?thesis by (simp add: Map_delete_def)
qed

lemma distinct_Map_delete: "distinct (map fst m) \<Longrightarrow> distinct (map fst (Map_delete m k))"
  by (simp add: Map_delete_def distinct_map_filter)

lemma distinct_inserted:
  "distinct (map fst (store c)) \<Longrightarrow> distinct (map fst (inserted c now key d optTtl))"
  using Map_delete_keys [of key "store c"] by (auto simp: inserted_def distinct_Map_delete)

lemma set_evicts_oldest:
  assumes "distinct (map fst (store c))"
    and "int (length (inserted c now key d optTtl)) > maxEntries c"
    and "fst (hd (inserted c now key d optTtl)) \<noteq> []"
  shows "store (DnsCache_set c now key d optTtl) = tl (inserted c now key d optTtl)"
proof -
  have "inserted c now key d optTtl \<noteq> []" by (simp add: inserted_def)
  with assms show ?thesis
    by (simp add: DnsCache_set_store Let_def Map_delete_hd distinct_inserted)
qed

text \<open>With room for one entry at least, the entry just set is the last of the store.\<close>

lemma set_shape:
  assumes "1 \<le> maxEntries c"
  shows "\<exists>xs. store (DnsCache_set c now key d optTtl) = xs @ [(key, newEntry c now d optTtl)] \<and>
              key \<notin> fst ` set xs"
proof -
  define del where "del = Map_delete (store c) key"
  define e where "e = newEntry c now d optTtl"
  define ins where "ins = inserted c now key d optTtl"
  have ins: "ins = del @ [(key, e)]" by (simp add: ins_def inserted_def del_def e_def)
  have nk: "key \<notin> fst ` set del" unfolding del_def by (rule Map_delete_keys)
  have st: "store (DnsCache_set c now key d optTtl) =
      (if int (length ins) > maxEntries c \<and> fst (hd ins) \<noteq> []
       then Map_delete ins (fst (hd ins)) else ins)"
    unfolding ins_def by (simp add: DnsCache_set_store Let_def)
  show ?thesis
  proof (cases "int (length ins) > maxEntries c \<and> fst (hd ins) \<noteq> []")
    case False
    with st have "store (DnsCache_set c now key d optTtl) = del @ [(key, e)]" using ins by auto
    with nk show ?thesis unfolding e_def by blast
  next
    case True
    with assms ins have "del \<noteq> []" by auto
    then obtain p ps where del: "del = p # ps" by (cases del) auto
    with nk have pk: "fst p \<noteq> key" by auto
    have "store (DnsCache_set c now key d optTtl) = Map_delete ins (fst (hd ins))"
      using True st by simp
    also have "\<dots> = Map_delete del (fst p) @ [(key, e)]"
      using pk del ins by (simp add: Map_delete_def)
    finally have "store (DnsCache_set c now key d optTtl) = Map_delete del (fst p) @ [(key, e)]" .
    moreover have "key \<notin> fst ` set (Map_delete del (fst p))"
      using nk by (auto simp: Map_delete_def)
    ultimately show ?thesis unfolding e_def by blast
  qed
qed

lemma filter_key_absent: "k \<notin> fst ` set xs \<Longrightarrow> filter (\<lambda>p. fst p = k) xs = []"
  by (induction xs) auto

lemma map_of_append_absent: "k \<notin> fst ` set xs \<Longrightarrow> map_of (xs @ [(k, v)]) k = Some v"
  by (induction xs) auto

lemma set_keeps_key:
  assumes "1 \<le> maxEntries c"
  shows "filter (\<lambda>p. fst p = key) (store (DnsCache_set c now key d optTtl)) =
           [(key, newEntry c now d optTtl)]"
    and "last (store (DnsCache_set c now key d optTtl)) = (key, newEntry c now d optTtl)"
    and "Map_get (store (DnsCache_set c now key d optTtl)) key = Some (newEntry c now d optTtl)"
proof -
  obtain xs where xs: "store (DnsCache_set c now key d optTtl) = xs @ [(key, newEntry c now d optTtl)]"
    and nk: "key \<notin> fst ` set xs"
    using set_shape [OF assms, of now key d optTtl] by blast
  show "filter (\<lambda>p. fst p = key) (store (DnsCache_set c now key d optTtl)) =
          [(key, newEntry c now d optTtl)]"
    using nk by (simp add: xs filter_key_absent)
  show "last (store (DnsCache_set c now key d optTtl)) = (key, newEntry c now d optTtl)"
    by (simp add: xs)
  show "Map_get (store (DnsCache_set c now key d optTtl)) key = Some (newEntry c now d optTtl)"
    unfolding Map_get_def xs using nk by (rule map_of_append_absent)
qed

lemma set_then_get:
  assumes "1 \<le> maxEntries c"
  shows "fst (DnsCache_get (DnsCache_set c t key d (Some ttl)) t' key) =
           (if t' > t + ttl then None else Some \<lparr>data = d, expiresAt = t + ttl\<rparr>)"
  using set_keeps_key(3) [OF assms, of t key d "Some ttl"]
  by (simp add: DnsCache_get_def newEntry_def)

lemma Map_has_simps [simp]:
  "Map_has [] k = False"
  "Map_has (p # ps) k = (fst p = k \<or> Map_has ps k)"
  by (auto simp: Map_has_def)

lemma Map_delete_simps [simp]:
  "Map_delete [] k = []"
  "Map_delete (p # ps) k = (if fst p = k then Map_delete ps k else p # Map_delete ps k)"
  by (auto simp: Map_delete_def)

lemma Map_get_simps [simp]:
  "Map_get [] k = None"
  "Map_get (p # ps) k = (if fst p = k then Some (snd p) else Map_get ps k)"
  by (auto simp: Map_get_def)

lemma three_keys_example:
  assumes "distinct [k1, k2, k3]" "k1 \<noteq> []"
  shows "Map_keys (store (DnsCache_set (DnsCache_set (DnsCache_set
           (DnsCache_new (Some 2) o0) t1 k1 v1 o1) t2 k2 v2 o2) t3 k3 v3 o3)) = [k2, k3]"
  using assms
  by (auto simp add: DnsCache_set_def DnsCache_new_def Let_def Map_first_key_def Map_keys_def)

lemma touched_key_example:
  assumes "distinct [k1, k2, k3]" "k2 \<noteq> []" "t \<le> t1 + ttl"
  shows "Map_keys (store (DnsCache_set (snd (DnsCache_get (DnsCache_set (DnsCache_set
           (DnsCache_new (Some 2) o0) t1 k1 v1 (Some ttl)) t2 k2 v2 o2) t k1)) t3 k3 v3 o3)) = [k1, k3]"
  using assms
  by (auto simp add: DnsCache_set_def DnsCache_get_def DnsCache_new_def Let_def Map_first_key_def
      Map_keys_def)

text \<open>
  The claim C7 as stated fails for a cache without capacity: with \<open>maxEntries = 0\<close> the
  entry that \<open>set\<close> inserts is evicted by the same call, and a \<open>get\<close> before the time to
  live has elapsed finds nothing.
\<close>

theorem DnsCache_zero_capacity_counterexample:
  "fst (DnsCache_get (DnsCache_set (DnsCache_new (Some 0) None) 0 ''MX:example.com'' True (Some 1000))
          500 ''MX:example.com'') = None"
  by (simp add: DnsCache_set_def DnsCache_get_def DnsCache_new_def Let_def Map_first_key_def)

text \<open>
  Claim C7, amended. \<open>get\<close> on an entry whose \<open>expiresAt\<close> has passed returns nothing and
  removes the entry. In a cache with \<open>maxEntries \<ge> 1\<close>, \<open>set(k, v, ttl)\<close> at time \<open>t\<close> followed
  by \<open>get(k)\<close> at time \<open>t'\<close> returns \<open>v\<close> when \<open>t' \<le> t + ttl\<close> and nothing when
  \<open>t' > t + ttl\<close>; after \<open>set\<close> the store holds exactly one entry for the key, the new one,
  at the most recent position. When the insertion makes the store exceed \<open>maxEntries\<close> and
  the least recently touched key is not the empty string, exactly that entry is evicted:
  the store is the inserted store without its first entry. With \<open>maxEntries = 2\<close>,
  inserting three distinct keys, the first of them not empty, leaves the second and the
  third; if the first key is read before the third is inserted, the second one is
  evicted instead.
\<close>

theorem DnsCache_expiry_and_eviction:
  "(Map_get (store c) k = Some e \<and> now > expiresAt e \<longrightarrow>
      fst (DnsCache_get c now k) = None \<and>
      store (snd (DnsCache_get c now k)) = Map_delete (store c) k \<and>
      Map_get (store (snd (DnsCache_get c now k))) k = None) \<and>
   (1 \<le> maxEntries c \<longrightarrow>
      fst (DnsCache_get (DnsCache_set c t key v (Some ttl)) t' key) =
        (if t' > t + ttl then None else Some \<lparr>data = v, expiresAt = t + ttl\<rparr>) \<and>
      filter (\<lambda>p. fst p = key) (store (DnsCache_set c t key v optTtl)) = [(key, newEntry c t v optTtl)] \<and>
      last (store (DnsCache_set c t key v optTtl)) = (key, newEntry c t v optTtl)) \<and>
   (distinct (map fst (store c)) \<and> int (length (inserted c t key v optTtl)) > maxEntries c \<and>
    fst (hd (inserted c t key v optTtl)) \<noteq> [] \<longrightarrow>
      store (DnsCache_set c t key v optTtl) = tl (inserted c t key v optTtl)) \<and>
   (distinct [k1, k2, k3] \<and> k1 \<noteq> [] \<longrightarrow>
      Map_keys (store (DnsCache_set (DnsCache_set (DnsCache_set
        (DnsCache_new (Some 2) o0) t1 k1 v1 o1) t2 k2 v2 o2) t3 k3 v3 o3)) = [k2, k3]) \<and>
   (distinct [k1, k2, k3] \<and> k2 \<noteq> [] \<and> t0 \<le> t1 + ttl1 \<longrightarrow>
      Map_keys (store (DnsCache_set (snd (DnsCache_get (DnsCache_set (DnsCache_set
        (DnsCache_new (Some 2) o0) t1 k1 v1 (Some ttl1)) t2 k2 v2 o2) t0 k1)) t3 k3 v3 o3)) = [k1, k3])"
  using DnsCache_get_expired [of c k e now] set_then_get [of c t key v ttl t']
    set_keeps_key(1,2) [where c = c and key = key and now = t and d = v and optTtl = optTtl] set_evicts_oldest [of c t key v optTtl]
    three_keys_example [of k1 k2 k3 o0 t1 v1 o1 t2 v2 o2 t3 v3 o3]
    touched_key_example [of k1 k2 k3 t0 t1 ttl1 o0 v1 t2 v2 o2 t3 v3 o3]
  by blast

theorem DnsCache_expiry_and_eviction_witness:
  "fst (DnsCache_get cache_ab 11 ''a'') = None \<and>
   fst (DnsCache_get (DnsCache_set cache_ab 100 ''c'' 3 (Some 1000)) 600 ''c'') =
     Some \<lparr>data = 3, expiresAt = 1100\<rparr> \<and>
   fst (DnsCache_get (DnsCache_set cache_ab 100 ''c'' 3 (Some 1000)) 1101 ''c'') = None \<and>
   store (DnsCache_set cache_ab 100 ''c'' 3 (Some 1000)) =
     [(''b'', \<lparr>data = 2, expiresAt = 2000\<rparr>), (''c'', \<lparr>data = 3, expiresAt = 1100\<rparr>)] \<and>
   Map_keys (store (DnsCache_set (DnsCache_set (DnsCache_set
     (DnsCache_new (Some 2) None) 0 ''k1'' (1::nat) None) 1 ''k2'' 2 None) 2 ''k3'' 3 None)) = [''k2'', ''k3'']"
proof -
  have h1: "Map_get (store cache_ab) ''a'' = Some \<lparr>data = 1, expiresAt = 10\<rparr> \<and>
            (11::int) > expiresAt \<lparr>data = 1::nat, expiresAt = 10\<rparr>"
    by (simp add: cache_ab_def)
  have h2: "1 \<le> maxEntries cache_ab" by (simp add: cache_ab_def)
  have h3: "distinct (map fst (store cache_ab)) \<and>
            int (length (inserted cache_ab 100 ''c'' 3 (Some 1000))) > maxEntries cache_ab \<and>
            fst (hd (inserted cache_ab 100 ''c'' 3 (Some 1000))) \<noteq> []"
    by (simp add: cache_ab_def inserted_def)
  have h4: "distinct [''k1'', ''k2'', ''k3''] \<and> ''k1'' \<noteq> []" by simp
  have h5: "tl (inserted cache_ab 100 ''c'' 3 (Some 1000)) =
      [(''b'', \<lparr>data = 2, expiresAt = 2000\<rparr>), (''c'', \<lparr>data = 3, expiresAt = 1100\<rparr>)]"
    by (simp add: cache_ab_def inserted_def newEntry_def)
  note inst = DnsCache_expiry_and_eviction [where c = cache_ab and k = "''a''"
        and e = "\<lparr>data = 1, expiresAt = 10\<rparr>" and now = 11 and t = 100 and key = "''c''"
        and v = "3::nat" and ttl = 1000 and optTtl = "Some 1000" and ?k1.0 = "''k1''"
        and ?k2.0 = "''k2''" and ?k3.0 = "''k3''" and ?o0.0 = None and ?t1.0 = 0 and ?v1.0 = "1::nat"
        and ?o1.0 = None and ?t2.0 = 1 and ?v2.0 = "2::nat" and ?o2.0 = None and ?t3.0 = 2
        and ?v3.0 = "3::nat" and ?o3.0 = None and ?t0.0 = 0 and ?ttl1.0 = 0]
  show ?thesis
    using h1 h2 h3 h4 h5 inst [where t' = 600] inst [where t' = 1101]
    by simp
qed

lemma get_repeat_absent:
  "Map_get (store c) key = None \<Longrightarrow> Map_get (store (get_repeat c nows key)) key = None"
  by (induction c nows key rule: get_repeat.induct) (simp_all add: DnsCache_get_def)

lemma DnsCache_get_same_or_gone:
  assumes "Map_get (store c) key = Some entry"
  shows "Map_get (store (snd (DnsCache_get c now key))) key = Some entry \<or>
         Map_get (store (snd (DnsCache_get c now key))) key = None"
proof (cases "now > expiresAt entry")
  case True
  then show ?thesis using DnsCache_get_expired(3) [OF assms] by simp
next
  case False
  then have "now \<le> expiresAt entry" by simp
  then show ?thesis using DnsCache_get_present(3) [OF assms, of now key] assms by simp
qed

lemma get_repeat_same_or_gone:
  "Map_get (store c) key = Some entry \<Longrightarrow>
   Map_get (store (get_repeat c nows key)) key = Some entry \<or>
   Map_get (store (get_repeat c nows key)) key = None"
proof (induction c nows key rule: get_repeat.induct)
  case (1 c key)
  then show ?case by simp
next
  case (2 c now nows key)
  from DnsCache_get_same_or_gone [OF "2.prems", of now]
  show ?case
  proof
    assume "Map_get (store (snd (DnsCache_get c now key))) key = Some entry"
    then show ?thesis using "2.IH" by simp
  next
    assume "Map_get (store (snd (DnsCache_get c now key))) key = None"
    then show ?thesis by (simp add: get_repeat_absent)
  qed
qed

text \<open>
  Claim C10. For a key whose entry is present and not expired, \<open>get\<close> returns the entry
  as it is stored and changes only its position in the recency order: the store
  afterwards is the old store with the entry moved to the end, every key maps to the
  entry it mapped to before, and the parameters of the cache are the same. Whatever the
  times of a sequence of \<open>get\<close> calls for the key, the key afterwards holds the same entry,
  with the same \<open>expiresAt\<close>, or none: \<open>get\<close> never extends a lifetime.
\<close>

theorem DnsCache_get_keeps_entry:
  "Map_get (store c) key = Some entry \<and> now \<le> expiresAt entry \<longrightarrow>
     fst (DnsCache_get c now key) = Some entry \<and>
     store (snd (DnsCache_get c now key)) = Map_delete (store c) key @ [(key, entry)] \<and>
     (\<forall>k. Map_get (store (snd (DnsCache_get c now key))) k = Map_get (store c) k) \<and>
     maxEntries (snd (DnsCache_get c now key)) = maxEntries c \<and>
     ttlMs (snd (DnsCache_get c now key)) = ttlMs c \<and>
     (Map_get (store (get_repeat c nows key)) key = Some entry \<or>
      Map_get (store (get_repeat c nows key)) key = None)"
  using DnsCache_get_present [of c key entry now] get_repeat_same_or_gone [of c key entry nows]
  by auto

theorem DnsCache_get_keeps_entry_witness:
  "fst (DnsCache_get cache_ab 5 ''a'') = Some \<lparr>data = 1, expiresAt = 10\<rparr> \<and>
   store (snd (DnsCache_get cache_ab 5 ''a'')) =
     [(''b'', \<lparr>data = 2, expiresAt = 2000\<rparr>), (''a'', \<lparr>data = 1, expiresAt = 10\<rparr>)] \<and>
   Map_get (store (get_repeat cache_ab [5, 6, 7] ''a'')) ''a'' = Some \<lparr>data = 1, expiresAt = 10\<rparr>"
proof -
  have h: "Map_get (store cache_ab) ''a'' = Some \<lparr>data = 1, expiresAt = 10\<rparr> \<and>
           (5::int) \<le> expiresAt \<lparr>data = 1::nat, expiresAt = 10\<rparr>"
    by (simp add: cache_ab_def)
  show ?thesis
    using h DnsCache_get_keeps_entry [of cache_ab "''a''" "\<lparr>data = 1, expiresAt = 10\<rparr>" 5 "[5, 6, 7]"]
    by (simp add: cache_ab_def DnsCache_get_def)
qed

section \<open>Verification: SMTP probe engine\<close>

lemma startsWith_code:
  assumes "startsWith l p" "length p = 3" "list_all isDigit p"
  shows "parseCode l = Some p"
proof -
  from assms(1) have t: "take (length p) l = p" by (simp add: startsWith_def)
  then have "length (take (length p) l) = length p" by simp
  then have "length p \<le> length l" by simp
  with assms t show ?thesis by (simp add: parseCode_def)
qed

lemma code_250: "startsWith l ''250'' \<Longrightarrow> parseCode l = Some ''250''"
  by (rule startsWith_code) (simp_all add: isDigit_def)

lemma code_550: "startsWith l ''550'' \<Longrightarrow> parseCode l = Some ''550''"
  by (rule startsWith_code) (simp_all add: isDigit_def)

lemma code_551: "startsWith l ''551'' \<Longrightarrow> parseCode l = Some ''551''"
  by (rule startsWith_code) (simp_all add: isDigit_def)

lemma code_553: "startsWith l ''553'' \<Longrightarrow> parseCode l = Some ''553''"
  by (rule startsWith_code) (simp_all add: isDigit_def)

lemma code_220: "startsWith l ''220'' \<Longrightarrow> parseCode l = Some ''220''"
  by (rule startsWith_code) (simp_all add: isDigit_def)

lemma startsWith_first: "startsWith l [a] \<Longrightarrow> startsWith l (a # p) \<or> \<not> startsWith l (a # p)"
  by simp

lemma not_250_if_4: "startsWith l ''4'' \<Longrightarrow> \<not> startsWith l ''250''"
  by (cases l) (auto simp: startsWith_def)

lemma not_250_if_5: "startsWith l (CHR ''5'' # p) \<Longrightarrow> \<not> startsWith l ''250''"
  by (cases l) (auto simp: startsWith_def)

lemma not_55x_if_4:
  "startsWith l ''4'' \<Longrightarrow> \<not> startsWith l ''550'' \<and> \<not> startsWith l ''551'' \<and> \<not> startsWith l ''553''"
  by (cases l) (auto simp: startsWith_def)

lemma onData_rcpt_250:
  assumes "stage s = Rcpt" "\<not> resolved s" "startsWith (lastLine chunk) ''250''"
  shows "outcome (onData addr chunk s) = Some \<lparr>status = SValid, code = Some ''250''\<rparr>"
    and "resolved (onData addr chunk s)" and "stage (onData addr chunk s) = Done"
  using assms code_250 [OF assms(3)]
  by (simp_all add: onData_def Let_def done'_def send_def clearTimeout_def)

lemma onData_rcpt_55x:
  assumes "stage s = Rcpt" "\<not> resolved s" "parseCode (lastLine chunk) = Some c"
    and "startsWith (lastLine chunk) ''550'' \<or> startsWith (lastLine chunk) ''551'' \<or>
         startsWith (lastLine chunk) ''553''"
  shows "outcome (onData addr chunk s) = Some \<lparr>status = SInvalid, code = Some c\<rparr>"
    and "resolved (onData addr chunk s)" and "stage (onData addr chunk s) = Done"
proof -
  have n: "\<not> startsWith (lastLine chunk) ''250''" using assms(4) not_250_if_5 by blast
  show "outcome (onData addr chunk s) = Some \<lparr>status = SInvalid, code = Some c\<rparr>"
    and "resolved (onData addr chunk s)" and "stage (onData addr chunk s) = Done"
    using assms n by (simp_all add: onData_def Let_def done'_def send_def clearTimeout_def)
qed

lemma onData_rcpt_4xx:
  assumes "stage s = Rcpt" "\<not> resolved s" "parseCode (lastLine chunk) = Some c"
    and "startsWith (lastLine chunk) ''4''"
  shows "outcome (onData addr chunk s) = Some \<lparr>status = SUnknown, code = Some c\<rparr>"
    and "resolved (onData addr chunk s)" and "stage (onData addr chunk s) = Done"
  using assms not_250_if_4 [OF assms(4)] not_55x_if_4 [OF assms(4)]
  by (simp_all add: onData_def Let_def done'_def send_def clearTimeout_def)

text \<open>The course of a conversation, one reply at a time.\<close>

lemma onData_greet:
  assumes "stage s = Greet" "parseCode (lastLine chunk) = Some c"
  shows "stage (onData addr chunk s) = Helo" "resolved (onData addr chunk s) = resolved s"
    "timerArmed (onData addr chunk s) = timerArmed s" "outcome (onData addr chunk s) = outcome s"
  using assms by (simp_all add: onData_def Let_def send_def)

lemma onData_helo_250:
  assumes "stage s = Helo" "startsWith (lastLine chunk) ''250''"
  shows "stage (onData addr chunk s) = Mailfrom" "resolved (onData addr chunk s) = resolved s"
    "timerArmed (onData addr chunk s) = timerArmed s" "outcome (onData addr chunk s) = outcome s"
  using assms code_250 [OF assms(2)] by (simp_all add: onData_def Let_def send_def)

lemma onData_mailfrom_250:
  assumes "stage s = Mailfrom" "startsWith (lastLine chunk) ''250''"
  shows "stage (onData addr chunk s) = Rcpt" "resolved (onData addr chunk s) = resolved s"
    "timerArmed (onData addr chunk s) = timerArmed s" "outcome (onData addr chunk s) = outcome s"
  using assms code_250 [OF assms(2)] by (simp_all add: onData_def Let_def send_def)

lemma onTimeout_resolved: "resolved s \<Longrightarrow> outcome (onTimeout s) = outcome s"
  by (simp add: onTimeout_def done'_def)

lemma smtpSession0_simps [simp]:
  "stage smtpSession0 = Greet" "\<not> resolved smtpSession0" "timerArmed smtpSession0"
  "outcome smtpSession0 = None" "written smtpSession0 = []" "lines smtpSession0 = []"
  by (simp_all add: smtpSession0_def newSession_def Session.extend_def)

lemma conversation_rcpt:
  assumes "parseCode (lastLine t1) = Some c1" "startsWith (lastLine t2) ''250''"
    "startsWith (lastLine t3) ''250''"
  shows "stage (foldl (smtpStep addr) smtpSession0 [OnData t1, OnData t2, OnData t3]) = Rcpt"
    and "\<not> resolved (foldl (smtpStep addr) smtpSession0 [OnData t1, OnData t2, OnData t3])"
proof -
  let ?s1 = "onData addr t1 smtpSession0"
  let ?s2 = "onData addr t2 ?s1"
  have s1: "stage ?s1 = Helo" "\<not> resolved ?s1"
    using onData_greet [of smtpSession0 t1 c1 addr] assms(1) by simp_all
  have s2: "stage ?s2 = Mailfrom" "\<not> resolved ?s2"
    using onData_helo_250 [of ?s1 t2 addr] s1 assms(2) by simp_all
  show "stage (foldl (smtpStep addr) smtpSession0 [OnData t1, OnData t2, OnData t3]) = Rcpt"
    and "\<not> resolved (foldl (smtpStep addr) smtpSession0 [OnData t1, OnData t2, OnData t3])"
    using onData_mailfrom_250 [of ?s2 t3 addr] s2 assms(3) by simp_all
qed

lemma conversation_550:
  assumes "net host = [OnData t1, OnData t2, OnData t3, OnData t4]"
    and "startsWith (lastLine t1) ''220''" "startsWith (lastLine t2) ''250''"
    and "startsWith (lastLine t3) ''250''" "startsWith (lastLine t4) ''550''"
  shows "connectAndProbe net host addr = Some \<lparr>status = SInvalid, code = Some ''550''\<rparr>"
proof -
  let ?s3 = "foldl (smtpStep addr) smtpSession0 [OnData t1, OnData t2, OnData t3]"
  have s3: "stage ?s3 = Rcpt" "\<not> resolved ?s3"
    using conversation_rcpt [OF code_220 [OF assms(2)] assms(3) assms(4)] by simp_all
  have "outcome (onData addr t4 ?s3) = Some \<lparr>status = SInvalid, code = Some ''550''\<rparr>"
    and "resolved (onData addr t4 ?s3)"
    using onData_rcpt_55x [OF s3 code_550 [OF assms(5)]] assms(5) by simp_all
  then have "outcome (onTimeout (onData addr t4 ?s3)) = Some \<lparr>status = SInvalid, code = Some ''550''\<rparr>"
    by (simp add: onTimeout_resolved)
  then show ?thesis by (simp add: connectAndProbe_def smtpRun_def assms(1))
qed

lemma conversation_250:
  assumes "net host = [OnData t1, OnData t2, OnData t3, OnData t4]"
    and "startsWith (lastLine t1) ''220''" "startsWith (lastLine t2) ''250''"
    and "startsWith (lastLine t3) ''250''" "startsWith (lastLine t4) ''250''"
  shows "connectAndProbe net host addr = Some \<lparr>status = SValid, code = Some ''250''\<rparr>"
proof -
  let ?s3 = "foldl (smtpStep addr) smtpSession0 [OnData t1, OnData t2, OnData t3]"
  have s3: "stage ?s3 = Rcpt" "\<not> resolved ?s3"
    using conversation_rcpt [OF code_220 [OF assms(2)] assms(3) assms(4)] by simp_all
  have "outcome (onData addr t4 ?s3) = Some \<lparr>status = SValid, code = Some ''250''\<rparr>"
    and "resolved (onData addr t4 ?s3)"
    using onData_rcpt_250 [OF s3 assms(5)] by simp_all
  then have "outcome (onTimeout (onData addr t4 ?s3)) = Some \<lparr>status = SValid, code = Some ''250''\<rparr>"
    by (simp add: onTimeout_resolved)
  then show ?thesis by (simp add: connectAndProbe_def smtpRun_def assms(1))
qed

text \<open>Once a session is resolved, no event changes the value of its promise.\<close>

lemma resolved_onData:
  "resolved s \<Longrightarrow> resolved (onData addr chunk s) \<and> outcome (onData addr chunk s) = outcome s"
  by (auto simp: onData_def Let_def done'_def send_def clearTimeout_def split: option.splits)

lemma resolved_smtpStep:
  "resolved s \<Longrightarrow> resolved (smtpStep addr s ev) \<and> outcome (smtpStep addr s ev) = outcome s"
  by (cases ev) (simp_all add: resolved_onData onClose_def done'_def clearTimeout_def)

lemma resolved_foldl:
  "resolved s \<Longrightarrow>
     resolved (foldl (smtpStep addr) s evs) \<and> outcome (foldl (smtpStep addr) s evs) = outcome s"
  by (induction evs arbitrary: s) (simp_all add: resolved_smtpStep)

lemma connectAndProbe_after_reply:
  assumes "net host = evs @ OnData chunk # rest"
    and "resolved (onData addr chunk (foldl (smtpStep addr) smtpSession0 evs))"
  shows "connectAndProbe net host addr =
           outcome (onData addr chunk (foldl (smtpStep addr) smtpSession0 evs))"
proof -
  let ?s = "onData addr chunk (foldl (smtpStep addr) smtpSession0 evs)"
  have "foldl (smtpStep addr) smtpSession0 (net host) = foldl (smtpStep addr) ?s rest"
    by (simp add: assms(1))
  moreover have "resolved (foldl (smtpStep addr) ?s rest)"
    and "outcome (foldl (smtpStep addr) ?s rest) = outcome ?s"
    using resolved_foldl [OF assms(2)] by simp_all
  ultimately show ?thesis by (simp add: connectAndProbe_def smtpRun_def onTimeout_resolved)
qed

text \<open>
  Claim C1. In a session that is in the \<open>rcpt\<close> stage and not yet resolved, a reply with
  a reply code resolves the session at once: to valid with the code 250 when the reply
  starts with 250; to invalid with the code of the reply when it starts with 550, 551 or
  553; to unknown with the code of the reply when it starts with 4. That outcome is the
  value of \<open>connectAndProbe\<close>, whatever the socket emits afterwards. A server that replies
  220, 250, 250 and 550 to the connection and the three commands yields invalid with the
  code 550, and the same conversation ending in 250 yields valid.
\<close>

theorem rcpt_reply_classification:
  "(stage s = Rcpt \<and> \<not> resolved s \<and> parseCode (lastLine chunk) = Some c \<longrightarrow>
      (startsWith (lastLine chunk) ''250'' \<longrightarrow>
         c = ''250'' \<and> outcome (onData addr chunk s) = Some \<lparr>status = SValid, code = Some c\<rparr> \<and>
         resolved (onData addr chunk s) \<and> stage (onData addr chunk s) = Done) \<and>
      (startsWith (lastLine chunk) ''550'' \<or> startsWith (lastLine chunk) ''551'' \<or>
       startsWith (lastLine chunk) ''553'' \<longrightarrow>
         outcome (onData addr chunk s) = Some \<lparr>status = SInvalid, code = Some c\<rparr> \<and>
         resolved (onData addr chunk s) \<and> stage (onData addr chunk s) = Done) \<and>
      (startsWith (lastLine chunk) ''4'' \<longrightarrow>
         outcome (onData addr chunk s) = Some \<lparr>status = SUnknown, code = Some c\<rparr> \<and>
         resolved (onData addr chunk s) \<and> stage (onData addr chunk s) = Done)) \<and>
   (net host = evs @ OnData chunk # rest \<and> s = foldl (smtpStep addr) smtpSession0 evs \<and>
    stage s = Rcpt \<and> \<not> resolved s \<and> parseCode (lastLine chunk) = Some c \<longrightarrow>
      (startsWith (lastLine chunk) ''250'' \<longrightarrow>
         connectAndProbe net host addr = Some \<lparr>status = SValid, code = Some c\<rparr>) \<and>
      (startsWith (lastLine chunk) ''550'' \<or> startsWith (lastLine chunk) ''551'' \<or>
       startsWith (lastLine chunk) ''553'' \<longrightarrow>
         connectAndProbe net host addr = Some \<lparr>status = SInvalid, code = Some c\<rparr>) \<and>
      (startsWith (lastLine chunk) ''4'' \<longrightarrow>
         connectAndProbe net host addr = Some \<lparr>status = SUnknown, code = Some c\<rparr>)) \<and>
   (net host = [OnData t1, OnData t2, OnData t3, OnData t4] \<and>
    startsWith (lastLine t1) ''220'' \<and> startsWith (lastLine t2) ''250'' \<and>
    startsWith (lastLine t3) ''250'' \<longrightarrow>
      (startsWith (lastLine t4) ''550'' \<longrightarrow>
         connectAndProbe net host addr = Some \<lparr>status = SInvalid, code = Some ''550''\<rparr>) \<and>
      (startsWith (lastLine t4) ''250'' \<longrightarrow>
         connectAndProbe net host addr = Some \<lparr>status = SValid, code = Some ''250''\<rparr>))"
proof -
  have a: "stage s = Rcpt \<and> \<not> resolved s \<and> parseCode (lastLine chunk) = Some c \<longrightarrow>
      (startsWith (lastLine chunk) ''250'' \<longrightarrow>
         c = ''250'' \<and> outcome (onData addr chunk s) = Some \<lparr>status = SValid, code = Some c\<rparr> \<and>
         resolved (onData addr chunk s) \<and> stage (onData addr chunk s) = Done)"
    using onData_rcpt_250 [of s chunk addr] code_250 [of "lastLine chunk"] by auto
  have b: "stage s = Rcpt \<and> \<not> resolved s \<and> parseCode (lastLine chunk) = Some c \<longrightarrow>
      (startsWith (lastLine chunk) ''550'' \<or> startsWith (lastLine chunk) ''551'' \<or>
       startsWith (lastLine chunk) ''553'' \<longrightarrow>
         outcome (onData addr chunk s) = Some \<lparr>status = SInvalid, code = Some c\<rparr> \<and>
         resolved (onData addr chunk s) \<and> stage (onData addr chunk s) = Done)"
    using onData_rcpt_55x [of s chunk c addr] by blast
  have c: "stage s = Rcpt \<and> \<not> resolved s \<and> parseCode (lastLine chunk) = Some c \<longrightarrow>
      (startsWith (lastLine chunk) ''4'' \<longrightarrow>
         outcome (onData addr chunk s) = Some \<lparr>status = SUnknown, code = Some c\<rparr> \<and>
         resolved (onData addr chunk s) \<and> stage (onData addr chunk s) = Done)"
    using onData_rcpt_4xx [of s chunk c addr] by blast
  have d: "net host = evs @ OnData chunk # rest \<and> s = foldl (smtpStep addr) smtpSession0 evs \<and>
      resolved (onData addr chunk s) \<longrightarrow>
        connectAndProbe net host addr = outcome (onData addr chunk s)"
    using connectAndProbe_after_reply [of net host evs chunk rest addr] by blast
  have e: "net host = evs @ OnData chunk # rest \<and> s = foldl (smtpStep addr) smtpSession0 evs \<and>
    stage s = Rcpt \<and> \<not> resolved s \<and> parseCode (lastLine chunk) = Some c \<longrightarrow>
      (startsWith (lastLine chunk) ''250'' \<longrightarrow>
         connectAndProbe net host addr = Some \<lparr>status = SValid, code = Some c\<rparr>) \<and>
      (startsWith (lastLine chunk) ''550'' \<or> startsWith (lastLine chunk) ''551'' \<or>
       startsWith (lastLine chunk) ''553'' \<longrightarrow>
         connectAndProbe net host addr = Some \<lparr>status = SInvalid, code = Some c\<rparr>) \<and>
      (startsWith (lastLine chunk) ''4'' \<longrightarrow>
         connectAndProbe net host addr = Some \<lparr>status = SUnknown, code = Some c\<rparr>)"
  proof (intro impI conjI)
    assume h: "net host = evs @ OnData chunk # rest \<and> s = foldl (smtpStep addr) smtpSession0 evs \<and>
      stage s = Rcpt \<and> \<not> resolved s \<and> parseCode (lastLine chunk) = Some c"
    {
      assume "startsWith (lastLine chunk) ''250''"
      with h a d show "connectAndProbe net host addr = Some \<lparr>status = SValid, code = Some c\<rparr>"
        by auto
    }
    {
      assume "startsWith (lastLine chunk) ''550'' \<or> startsWith (lastLine chunk) ''551'' \<or>
        startsWith (lastLine chunk) ''553''"
      with h b d show "connectAndProbe net host addr = Some \<lparr>status = SInvalid, code = Some c\<rparr>"
        by auto
    }
    {
      assume "startsWith (lastLine chunk) ''4''"
      with h c d show "connectAndProbe net host addr = Some \<lparr>status = SUnknown, code = Some c\<rparr>"
        by auto
    }
  qed
  from a b c e conversation_550 [of net host t1 t2 t3 t4 addr]
    conversation_250 [of net host t1 t2 t3 t4 addr]
  show ?thesis by blast
qed

lemma lastLine_examples:
  "lastLine (''220 mx.example.com ESMTP'' @ CRLF) = ''220 mx.example.com ESMTP''"
  "lastLine (''250 ok'' @ CRLF) = ''250 ok''"
  "lastLine (''250 accepted'' @ CRLF) = ''250 accepted''"
  "lastLine (''550 user unknown'' @ CRLF) = ''550 user unknown''"
  "lastLine (''554 rejected'' @ CRLF) = ''554 rejected''"
  "lastLine (''421 busy'' @ CRLF) = ''421 busy''"
  by (simp_all add: lastLine_def trim_def CRLF_def CR_def LF_def isSpace_def)

theorem rcpt_reply_classification_witness:
  "outcome (onData ''user@example.com'' (''550 user unknown'' @ CRLF) rcptSession) =
     Some \<lparr>status = SInvalid, code = Some ''550''\<rparr> \<and>
   outcome (onData ''user@example.com'' (''250 accepted'' @ CRLF) rcptSession) =
     Some \<lparr>status = SValid, code = Some ''250''\<rparr> \<and>
   outcome (onData ''user@example.com'' (''421 busy'' @ CRLF) rcptSession) =
     Some \<lparr>status = SUnknown, code = Some ''421''\<rparr> \<and>
   connectAndProbe rejectingServer ''mx.example.com'' ''user@example.com'' =
     Some \<lparr>status = SInvalid, code = Some ''550''\<rparr> \<and>
   connectAndProbe acceptingServer ''mx.example.com'' ''user@example.com'' =
     Some \<lparr>status = SValid, code = Some ''250''\<rparr> \<and>
   connectAndProbe busyServer ''mx.example.com'' ''user@example.com'' =
     Some \<lparr>status = SUnknown, code = Some ''421''\<rparr>"
proof -
  have s: "stage rcptSession = Rcpt \<and> \<not> resolved rcptSession"
    by (simp add: rcptSession_def)
  have p550: "parseCode (lastLine (''550 user unknown'' @ CRLF)) = Some ''550'' \<and>
      startsWith (lastLine (''550 user unknown'' @ CRLF)) ''550''"
    by (simp only: lastLine_examples) (simp add: parseCode_def isDigit_def startsWith_def)
  have p250: "parseCode (lastLine (''250 accepted'' @ CRLF)) = Some ''250'' \<and>
      startsWith (lastLine (''250 accepted'' @ CRLF)) ''250''"
    by (simp only: lastLine_examples) (simp add: parseCode_def isDigit_def startsWith_def)
  have p421: "parseCode (lastLine (''421 busy'' @ CRLF)) = Some ''421'' \<and>
      startsWith (lastLine (''421 busy'' @ CRLF)) ''4''"
    by (simp only: lastLine_examples) (simp add: parseCode_def isDigit_def startsWith_def)
  have g: "startsWith (lastLine (''220 mx.example.com ESMTP'' @ CRLF)) ''220'' \<and>
      startsWith (lastLine (''250 ok'' @ CRLF)) ''250''"
    by (simp only: lastLine_examples) (simp add: startsWith_def)
  have r: "rejectingServer ''mx.example.com'' =
      [OnData (''220 mx.example.com ESMTP'' @ CRLF), OnData (''250 ok'' @ CRLF),
       OnData (''250 ok'' @ CRLF), OnData (''550 user unknown'' @ CRLF)]"
    by (simp add: rejectingServer_def)
  have a: "acceptingServer ''mx.example.com'' =
      [OnData (''220 mx.example.com ESMTP'' @ CRLF), OnData (''250 ok'' @ CRLF),
       OnData (''250 ok'' @ CRLF), OnData (''250 accepted'' @ CRLF)]"
    by (simp add: acceptingServer_def)
  note i1 = rcpt_reply_classification [where s = rcptSession
      and chunk = "''550 user unknown'' @ CRLF" and c = "''550''" and addr = "''user@example.com''"
      and net = rejectingServer and host = "''mx.example.com''"
      and ?t1.0 = "''220 mx.example.com ESMTP'' @ CRLF" and ?t2.0 = "''250 ok'' @ CRLF"
      and ?t3.0 = "''250 ok'' @ CRLF" and ?t4.0 = "''550 user unknown'' @ CRLF"]
  note i2 = rcpt_reply_classification [where s = rcptSession
      and chunk = "''250 accepted'' @ CRLF" and c = "''250''" and addr = "''user@example.com''"
      and net = acceptingServer and host = "''mx.example.com''"
      and ?t1.0 = "''220 mx.example.com ESMTP'' @ CRLF" and ?t2.0 = "''250 ok'' @ CRLF"
      and ?t3.0 = "''250 ok'' @ CRLF" and ?t4.0 = "''250 accepted'' @ CRLF"]
  note i3 = rcpt_reply_classification [where s = rcptSession
      and chunk = "''421 busy'' @ CRLF" and c = "''421''" and addr = "''user@example.com''"
      and net = acceptingServer and host = "''mx.example.com''"
      and ?t1.0 = "''220 mx.example.com ESMTP'' @ CRLF" and ?t2.0 = "''250 ok'' @ CRLF"
      and ?t3.0 = "''250 ok'' @ CRLF" and ?t4.0 = "''250 accepted'' @ CRLF"]
  have b: "busyServer ''mx.example.com'' =
      [OnData (''220 mx.example.com ESMTP'' @ CRLF), OnData (''250 ok'' @ CRLF),
       OnData (''250 ok'' @ CRLF)] @ OnData (''421 busy'' @ CRLF) # [OnEnd]"
    by (simp add: busyServer_def)
  have c220: "parseCode (lastLine (''220 mx.example.com ESMTP'' @ CRLF)) = Some ''220''"
    using g code_220 by blast
  have st: "stage (foldl (smtpStep ''user@example.com'') smtpSession0
        [OnData (''220 mx.example.com ESMTP'' @ CRLF), OnData (''250 ok'' @ CRLF),
         OnData (''250 ok'' @ CRLF)]) = Rcpt \<and>
      \<not> resolved (foldl (smtpStep ''user@example.com'') smtpSession0
        [OnData (''220 mx.example.com ESMTP'' @ CRLF), OnData (''250 ok'' @ CRLF),
         OnData (''250 ok'' @ CRLF)])"
    using conversation_rcpt [OF c220, of "''250 ok'' @ CRLF" "''250 ok'' @ CRLF" "''user@example.com''"] g
    by blast
  note i4 = rcpt_reply_classification [where
      s = "foldl (smtpStep ''user@example.com'') smtpSession0
        [OnData (''220 mx.example.com ESMTP'' @ CRLF), OnData (''250 ok'' @ CRLF),
         OnData (''250 ok'' @ CRLF)]"
      and evs = "[OnData (''220 mx.example.com ESMTP'' @ CRLF), OnData (''250 ok'' @ CRLF),
         OnData (''250 ok'' @ CRLF)]"
      and chunk = "''421 busy'' @ CRLF" and rest = "[OnEnd]" and c = "''421''"
      and addr = "''user@example.com''" and net = busyServer and host = "''mx.example.com''"]
  have busy: "connectAndProbe busyServer ''mx.example.com'' ''user@example.com'' =
      Some \<lparr>status = SUnknown, code = Some ''421''\<rparr>"
    using i4 b st p421 by blast
  show ?thesis using s p550 p250 p421 g r a i1 i2 i3 busy by blast
qed

text \<open>
  The claim C3 as stated fails for a reply whose code begins with 5: in the \<open>helo\<close> stage
  the reply 554 resolves the session to unknown with that code and ends it.
\<close>

theorem helo_5xx_counterexample:
  "outcome (onData ''user@example.com'' (''554 rejected'' @ CRLF) heloSession) =
     Some \<lparr>status = SUnknown, code = Some ''554''\<rparr> \<and>
   stage (onData ''user@example.com'' (''554 rejected'' @ CRLF) heloSession) = Done \<and>
   stage heloSession = Helo \<and> outcome heloSession = None"
  unfolding onData_def Let_def lastLine_examples
  by (simp add: parseCode_def isDigit_def startsWith_def heloSession_def done'_def clearTimeout_def)

lemma onData_stall:
  assumes "stage s = Helo \<or> stage s = Mailfrom" "\<not> startsWith (lastLine chunk) ''250''"
    and "parseCode (lastLine chunk) = None \<or>
         (\<exists>c. parseCode (lastLine chunk) = Some c \<and> \<not> startsWith c ''5'')"
  shows "onData addr chunk s = s\<lparr>lines := lines s @ [chunk]\<rparr>"
  using assms by (auto simp: onData_def Let_def)

lemma onData_early_rejection:
  assumes "stage s = Helo \<or> stage s = Mailfrom" "\<not> startsWith (lastLine chunk) ''250''"
    and "parseCode (lastLine chunk) = Some c" "startsWith c ''5''" "\<not> resolved s"
  shows "outcome (onData addr chunk s) = Some \<lparr>status = SUnknown, code = Some c\<rparr>"
    and "resolved (onData addr chunk s)" and "stage (onData addr chunk s) = Done"
    and "written (onData addr chunk s) = written s"
  using assms by (auto simp: onData_def Let_def done'_def clearTimeout_def)

text \<open>
  Claim C3, amended. In the \<open>helo\<close> or \<open>mailfrom\<close> stage, a reply that does not start with
  250 and whose code does not begin with 5 (or that carries no code) changes nothing but
  the log of received chunks: the stage, the outcome and the commands sent stay as
  they are, so that only the timer, a socket error or the end of the connection ends the
  session; the timer then resolves it to unknown without a code. A reply whose code
  begins with 5 resolves an unresolved session at once to unknown with that code,
  without a command being sent.
\<close>

theorem helo_mailfrom_other_reply:
  "((stage s = Helo \<or> stage s = Mailfrom) \<and> \<not> startsWith (lastLine chunk) ''250'' \<and>
    (parseCode (lastLine chunk) = None \<or>
     (\<exists>c. parseCode (lastLine chunk) = Some c \<and> \<not> startsWith c ''5'')) \<longrightarrow>
      onData addr chunk s = s\<lparr>lines := lines s @ [chunk]\<rparr> \<and>
      stage (onData addr chunk s) = stage s \<and> outcome (onData addr chunk s) = outcome s \<and>
      resolved (onData addr chunk s) = resolved s \<and> written (onData addr chunk s) = written s \<and>
      timerArmed (onData addr chunk s) = timerArmed s \<and>
      (\<not> resolved s \<and> timerArmed s \<longrightarrow>
         outcome (onTimeout (onData addr chunk s)) = Some \<lparr>status = SUnknown, code = None\<rparr>)) \<and>
   ((stage s = Helo \<or> stage s = Mailfrom) \<and> \<not> startsWith (lastLine chunk) ''250'' \<and>
    parseCode (lastLine chunk) = Some c5 \<and> startsWith c5 ''5'' \<and> \<not> resolved s \<longrightarrow>
      outcome (onData addr chunk s) = Some \<lparr>status = SUnknown, code = Some c5\<rparr> \<and>
      resolved (onData addr chunk s) \<and> stage (onData addr chunk s) = Done \<and>
      written (onData addr chunk s) = written s)"
proof -
  have "(stage s = Helo \<or> stage s = Mailfrom) \<and> \<not> startsWith (lastLine chunk) ''250'' \<and>
    (parseCode (lastLine chunk) = None \<or>
     (\<exists>c. parseCode (lastLine chunk) = Some c \<and> \<not> startsWith c ''5'')) \<longrightarrow>
      onData addr chunk s = s\<lparr>lines := lines s @ [chunk]\<rparr>"
    using onData_stall [of s chunk addr] by blast
  moreover have "onData addr chunk s = s\<lparr>lines := lines s @ [chunk]\<rparr> \<longrightarrow>
      stage (onData addr chunk s) = stage s \<and> outcome (onData addr chunk s) = outcome s \<and>
      resolved (onData addr chunk s) = resolved s \<and> written (onData addr chunk s) = written s \<and>
      timerArmed (onData addr chunk s) = timerArmed s \<and>
      (\<not> resolved s \<and> timerArmed s \<longrightarrow>
         outcome (onTimeout (onData addr chunk s)) = Some \<lparr>status = SUnknown, code = None\<rparr>)"
    by (simp add: onTimeout_def done'_def)
  ultimately show ?thesis
    using onData_early_rejection [of s chunk c5 addr] by blast
qed

theorem helo_mailfrom_other_reply_witness:
  "onData ''user@example.com'' (''421 busy'' @ CRLF) heloSession =
     heloSession\<lparr>lines := lines heloSession @ [''421 busy'' @ CRLF]\<rparr> \<and>
   outcome (onData ''user@example.com'' (''421 busy'' @ CRLF) heloSession) = None \<and>
   stage (onData ''user@example.com'' (''421 busy'' @ CRLF) heloSession) = Helo \<and>
   outcome (onTimeout (onData ''user@example.com'' (''421 busy'' @ CRLF) heloSession)) =
     Some \<lparr>status = SUnknown, code = None\<rparr> \<and>
   outcome (onData ''user@example.com'' (''554 rejected'' @ CRLF) heloSession) =
     Some \<lparr>status = SUnknown, code = Some ''554''\<rparr>"
proof -
  have s: "(stage heloSession = Helo \<or> stage heloSession = Mailfrom) \<and> \<not> resolved heloSession \<and>
      outcome heloSession = None \<and> stage heloSession = Helo \<and> timerArmed heloSession"
    by (simp add: heloSession_def)
  have p421: "\<not> startsWith (lastLine (''421 busy'' @ CRLF)) ''250'' \<and>
      parseCode (lastLine (''421 busy'' @ CRLF)) = Some ''421'' \<and> \<not> startsWith ''421'' ''5''"
    by (simp only: lastLine_examples) (simp add: parseCode_def isDigit_def startsWith_def)
  have p554: "\<not> startsWith (lastLine (''554 rejected'' @ CRLF)) ''250'' \<and>
      parseCode (lastLine (''554 rejected'' @ CRLF)) = Some ''554'' \<and> startsWith ''554'' ''5''"
    by (simp only: lastLine_examples) (simp add: parseCode_def isDigit_def startsWith_def)
  note i1 = helo_mailfrom_other_reply [where s = heloSession and chunk = "''421 busy'' @ CRLF"
      and addr = "''user@example.com''" and ?c5.0 = "''421''"]
  note i2 = helo_mailfrom_other_reply [where s = heloSession and chunk = "''554 rejected'' @ CRLF"
      and addr = "''user@example.com''" and ?c5.0 = "''554''"]
  show ?thesis using s p421 p554 i1 i2 by auto
qed

section \<open>Verification: \<open>probeSmtp\<close>\<close>

lemma sessionOk_done': "sessionOk s \<Longrightarrow> sessionOk (done' r (clearTimeout s))"
  by (auto simp: sessionOk_def done'_def clearTimeout_def)

lemma sessionOk_done'_stage:
  "sessionOk s \<Longrightarrow> sessionOk (done' r ((clearTimeout s)\<lparr>stage := st\<rparr>))"
  by (auto simp: sessionOk_def done'_def clearTimeout_def)

lemma sessionOk_done'_send:
  "sessionOk s \<Longrightarrow> sessionOk (done' r ((send cmd (clearTimeout s))\<lparr>stage := st\<rparr>))"
  by (auto simp: sessionOk_def done'_def clearTimeout_def send_def)

lemma sessionOk_send: "sessionOk s \<Longrightarrow> sessionOk ((send cmd s)\<lparr>stage := st\<rparr>)"
  by (auto simp: sessionOk_def send_def)

lemma sessionOk_lines: "sessionOk s \<Longrightarrow> sessionOk (s\<lparr>lines := ls\<rparr>)"
  by (auto simp: sessionOk_def)

lemma sessionOk_onData: "sessionOk s \<Longrightarrow> sessionOk (onData addr chunk s)"
  unfolding onData_def Let_def
  by (auto split: option.splits
      intro!: sessionOk_done'_send sessionOk_done'_stage sessionOk_send sessionOk_lines)

lemma sessionOk_smtpStep: "sessionOk s \<Longrightarrow> sessionOk (smtpStep addr s ev)"
  by (cases ev) (simp_all add: sessionOk_onData onClose_def sessionOk_done')

lemma sessionOk_foldl: "sessionOk s \<Longrightarrow> sessionOk (foldl (smtpStep addr) s evs)"
  by (induction evs arbitrary: s) (simp_all add: sessionOk_smtpStep)

lemma sessionOk_smtpSession0: "sessionOk smtpSession0"
  by (simp add: sessionOk_def)

lemma onTimeout_settles: "sessionOk s \<Longrightarrow> outcome (onTimeout s) \<noteq> None"
  by (auto simp: sessionOk_def onTimeout_def done'_def)

text \<open>Every probe session settles: the promise of \<open>connectAndProbe\<close> is always resolved.\<close>

lemma connectAndProbe_settles: "\<exists>r. connectAndProbe net host addr = Some r"
  using onTimeout_settles [OF sessionOk_foldl [OF sessionOk_smtpSession0, of addr "net host"]]
  by (simp add: connectAndProbe_def smtpRun_def)

lemma hostsTried_Nil [simp]: "hostsTried stops [] = []"
  by (simp add: hostsTried_def)

lemma hostsTried_Cons [simp]:
  "hostsTried stops (h # hs) = (if stops h then [h] else h # hostsTried stops hs)"
  by (simp add: hostsTried_def)

lemma probeHosts_find:
  "probeHosts net addr hosts =
     (case find (definitive net addr) hosts of
        Some h \<Rightarrow> connectAndProbe net h addr
      | None \<Rightarrow> Some \<lparr>status = SUnknown, code = None\<rparr>,
      map SmtpConnect (hostsTried (definitive net addr) hosts))"
proof (induction hosts)
  case Nil
  show ?case by simp
next
  case (Cons h hs)
  obtain r where r: "connectAndProbe net h addr = Some r"
    using connectAndProbe_settles by blast
  show ?case
  proof (cases "status r = SUnknown")
    case True
    with r have "\<not> definitive net addr h" by (simp add: definitive_def)
    with r True Cons show ?thesis by simp
  next
    case False
    with r have "definitive net addr h" by (simp add: definitive_def)
    with r False show ?thesis by simp
  qed
qed

lemma checkDNS_io [simp]: "snd (checkDNS env d opts) = dnsLookups env d opts"
  by (simp add: checkDNS_def Let_def)

lemma probeSmtp_denied:
  assumes "\<not> fst (allow limiter now d)"
  shows "probeSmtp env net now d addr timeout limiter =
           (Some \<lparr>status = SUnknown, code = Some ''rate_limited''\<rparr>, snd (allow limiter now d), [])"
proof -
  obtain a l' where al: "allow limiter now d = (a, l')" by (cases "allow limiter now d")
  with assms show ?thesis by (simp add: probeSmtp_def)
qed

lemma probeSmtp_allowed:
  assumes "fst (allow limiter now d)"
  shows "probeSmtp env net now d addr timeout limiter =
           (case find (definitive net addr) (mxHostList env d timeout) of
              Some h \<Rightarrow> connectAndProbe net h addr
            | None \<Rightarrow> Some \<lparr>status = SUnknown, code = None\<rparr>,
            snd (allow limiter now d),
            dnsLookups env d (mxOnly (Some timeout)) @
              map SmtpConnect (hostsTried (definitive net addr) (mxHostList env d timeout)))"
proof -
  obtain a l' where al: "allow limiter now d = (a, l')" by (cases "allow limiter now d")
  obtain dnsResult dnsIo where dns: "checkDNS env d (mxOnly (Some timeout)) = (dnsResult, dnsIo)"
    by (cases "checkDNS env d (mxOnly (Some timeout))")
  have io: "dnsIo = dnsLookups env d (mxOnly (Some timeout))"
    using checkDNS_io [of env d "mxOnly (Some timeout)"] dns by simp
  have hosts: "mxHostList env d timeout = (case mxHosts dnsResult of Some hs \<Rightarrow> hs | None \<Rightarrow> [])"
    by (simp add: mxHostList_def dns)
  show ?thesis
  proof (cases "mxHostList env d timeout = []")
    case True
    with assms al dns io hosts show ?thesis
      by (simp add: probeSmtp_def Let_def)
  next
    case False
    with assms al dns io hosts show ?thesis
      by (simp add: probeSmtp_def probeHosts_find Let_def)
  qed
qed

lemma find_definitive_settled:
  "find (definitive net addr) hosts = Some h \<Longrightarrow>
     \<exists>r. connectAndProbe net h addr = Some r \<and> status r \<noteq> SUnknown"
  by (auto simp: find_Some_iff definitive_def split: option.splits)

lemma probeSmtp_returns: "\<exists>r. fst (probeSmtp env net now d addr timeout limiter) = Some r"
proof (cases "fst (allow limiter now d)")
  case False
  then show ?thesis by (simp add: probeSmtp_denied)
next
  case True
  show ?thesis
  proof (cases "find (definitive net addr) (mxHostList env d timeout)")
    case None
    with True show ?thesis by (simp add: probeSmtp_allowed)
  next
    case (Some h)
    with True find_definitive_settled [OF Some] show ?thesis by (auto simp: probeSmtp_allowed)
  qed
qed

lemma mxHostList_env:
  "mxHostList env d timeout =
     (case resolveMx env d of ResolveOk records \<Rightarrow> map exchange records | ResolveErr e \<Rightarrow> [])"
  by (simp add: mxHostList_def checkDNS_def mxOnly_def Let_def split: ResolveResult.splits)

text \<open>
  Claim C2. When \<open>limiter.allow(domain)\<close> answers false, \<open>probeSmtp\<close> returns unknown with
  the code \<open>rate_limited\<close> and performs no DNS lookup and opens no connection. Otherwise it
  resolves the MX hosts and connects to them one after the other in the order of the
  list, up to and including the first host whose probe settles with a status other
  than unknown; it returns the outcome of that host, and unknown when every host yields
  unknown or there is no MX host. It always returns a result: no error reaches the caller.
\<close>

theorem probeSmtp_outcome:
  "(\<not> fst (allow limiter now d) \<longrightarrow>
      probeSmtp env net now d addr timeout limiter =
        (Some \<lparr>status = SUnknown, code = Some ''rate_limited''\<rparr>, snd (allow limiter now d), [])) \<and>
   (fst (allow limiter now d) \<longrightarrow>
      probeSmtp env net now d addr timeout limiter =
        (case find (definitive net addr) (mxHostList env d timeout) of
           Some h \<Rightarrow> connectAndProbe net h addr
         | None \<Rightarrow> Some \<lparr>status = SUnknown, code = None\<rparr>,
         snd (allow limiter now d),
         dnsLookups env d (mxOnly (Some timeout)) @
           map SmtpConnect (hostsTried (definitive net addr) (mxHostList env d timeout)))) \<and>
   (fst (allow limiter now d) \<and> (\<forall>h \<in> set (mxHostList env d timeout). \<not> definitive net addr h) \<longrightarrow>
      fst (probeSmtp env net now d addr timeout limiter) = Some \<lparr>status = SUnknown, code = None\<rparr>) \<and>
   (find (definitive net addr) hosts = Some h0 \<longrightarrow>
      (\<exists>r. connectAndProbe net h0 addr = Some r \<and> status r \<noteq> SUnknown)) \<and>
   (\<exists>r. fst (probeSmtp env net now d addr timeout limiter) = Some r) \<and>
   mxHostList env d timeout =
     (case resolveMx env d of ResolveOk records \<Rightarrow> map exchange records | ResolveErr e \<Rightarrow> [])"
proof -
  have none: "(\<forall>h \<in> set (mxHostList env d timeout). \<not> definitive net addr h) \<longrightarrow>
      find (definitive net addr) (mxHostList env d timeout) = None"
    by (simp add: find_None_iff)
  have "fst (allow limiter now d) \<and> (\<forall>h \<in> set (mxHostList env d timeout). \<not> definitive net addr h) \<longrightarrow>
      fst (probeSmtp env net now d addr timeout limiter) = Some \<lparr>status = SUnknown, code = None\<rparr>"
    using none by (simp add: probeSmtp_allowed)
  then show ?thesis
    using probeSmtp_denied [of limiter now d env net addr timeout]
      probeSmtp_allowed [of limiter now d env net addr timeout]
      find_definitive_settled [of net addr hosts h0]
      probeSmtp_returns [of env net now d addr timeout limiter]
      mxHostList_env [of env d timeout]
    by blast
qed

lemma example_probes:
  "connectAndProbe exampleNet ''mx1.example.com'' ''user@example.com'' =
     Some \<lparr>status = SUnknown, code = None\<rparr>"
  "connectAndProbe exampleNet ''mx2.example.com'' ''user@example.com'' =
     Some \<lparr>status = SInvalid, code = Some ''550''\<rparr>"
proof -
  show "connectAndProbe exampleNet ''mx1.example.com'' ''user@example.com'' =
      Some \<lparr>status = SUnknown, code = None\<rparr>"
    by (simp add: connectAndProbe_def smtpRun_def exampleNet_def onClose_def done'_def
        clearTimeout_def onTimeout_def)
  have e: "exampleNet ''mx2.example.com'' =
      [OnData (''220 mx.example.com ESMTP'' @ CRLF), OnData (''250 ok'' @ CRLF),
       OnData (''250 ok'' @ CRLF), OnData (''550 user unknown'' @ CRLF)]"
    by (simp add: exampleNet_def rejectingServer_def)
  have g220: "startsWith (lastLine (''220 mx.example.com ESMTP'' @ CRLF)) ''220''"
    and g250: "startsWith (lastLine (''250 ok'' @ CRLF)) ''250''"
    and g550: "startsWith (lastLine (''550 user unknown'' @ CRLF)) ''550''"
    by (simp_all only: lastLine_examples) (simp_all add: startsWith_def)
  show "connectAndProbe exampleNet ''mx2.example.com'' ''user@example.com'' =
      Some \<lparr>status = SInvalid, code = Some ''550''\<rparr>"
    using conversation_550 [where net = exampleNet and host = "''mx2.example.com''", OF e g220 g250 g250 g550] .
qed

lemma example_hosts: "mxHostList exampleDns ''example.com'' 4000 = [''mx1.example.com'', ''mx2.example.com'']"
  by (simp add: mxHostList_env resolveMx_def resolveCached_def exampleDns_def)

theorem probeSmtp_outcome_witness:
  "fst (probeSmtp exampleDns exampleNet 0 ''example.com'' ''user@example.com'' 4000
          (RateLimiter_new (Num 10) 60000)) = Some \<lparr>status = SInvalid, code = Some ''550''\<rparr> \<and>
   snd (snd (probeSmtp exampleDns exampleNet 0 ''example.com'' ''user@example.com'' 4000
          (RateLimiter_new (Num 10) 60000))) =
     [DnsResolve ''MX'' ''example.com'', DnsResolve ''A'' ''example.com'',
      DnsResolve ''AAAA'' ''example.com'', SmtpConnect ''mx1.example.com'',
      SmtpConnect ''mx2.example.com''] \<and>
   fst (probeSmtp exampleDns exampleNet 0 ''example.com'' ''user@example.com'' 4000
          (RateLimiter_new (Num 0) 60000)) = Some \<lparr>status = SUnknown, code = Some ''rate_limited''\<rparr> \<and>
   snd (snd (probeSmtp exampleDns exampleNet 0 ''example.com'' ''user@example.com'' 4000
          (RateLimiter_new (Num 0) 60000))) = []"
proof -
  have yes: "fst (allow (RateLimiter_new (Num 10) 60000) 0 ''example.com'')"
    by (simp add: allow_def RateLimiter_new_def Let_def)
  have no: "\<not> fst (allow (RateLimiter_new (Num 0) 60000) 0 ''example.com'')"
    by (simp add: allow_def RateLimiter_new_def Let_def)
  have d: "\<not> definitive exampleNet ''user@example.com'' ''mx1.example.com''"
    "definitive exampleNet ''user@example.com'' ''mx2.example.com''"
    by (simp_all add: definitive_def example_probes)
  have f: "find (definitive exampleNet ''user@example.com'')
      (mxHostList exampleDns ''example.com'' 4000) = Some ''mx2.example.com''"
    and t: "hostsTried (definitive exampleNet ''user@example.com'')
      (mxHostList exampleDns ''example.com'' 4000) = [''mx1.example.com'', ''mx2.example.com'']"
    using d by (simp_all add: example_hosts)
  have l: "dnsLookups exampleDns ''example.com'' (mxOnly (Some 4000)) =
      [DnsResolve ''MX'' ''example.com'', DnsResolve ''A'' ''example.com'',
       DnsResolve ''AAAA'' ''example.com'']"
    by (simp add: dnsLookups_def mxOnly_def exampleDns_def)
  note i1 = probeSmtp_outcome [where limiter = "RateLimiter_new (Num 10) 60000" and now = 0
      and d = "''example.com''" and env = exampleDns and net = exampleNet
      and addr = "''user@example.com''" and timeout = 4000
      and hosts = "mxHostList exampleDns ''example.com'' 4000" and ?h0.0 = "''mx2.example.com''"]
  note i2 = probeSmtp_outcome [where limiter = "RateLimiter_new (Num 0) 60000" and now = 0
      and d = "''example.com''" and env = exampleDns and net = exampleNet
      and addr = "''user@example.com''" and timeout = 4000
      and hosts = "mxHostList exampleDns ''example.com'' 4000" and ?h0.0 = "''mx2.example.com''"]
  show ?thesis
    using yes no f t l i1 i2 by (simp add: example_probes)
qed

section \<open>Verification: DNS resolver\<close>

lemma checkDNS_mx:
  "mx (fst (checkDNS env d opts)) =
     (if optMx opts \<noteq> Some False then Some (found (resolveMx env d)) else None)"
  by (simp add: checkDNS_def Let_def found_def split: ResolveResult.splits)

lemma domainExists_lookups:
  "domainExists (fst (checkDNS env d opts)) \<longleftrightarrow>
     (optMx opts \<noteq> Some False \<and> found (resolveMx env d)) \<or>
     (optSpf opts \<noteq> Some False \<and> foundText (resolveTxt env d)) \<or>
     found (resolveA env d) \<or> found (resolveAAAA env d)"
  by (cases "resolveMx env d"; cases "resolveTxt env d"; cases "resolveTxt env (''_dmarc.'' @ d)";
      cases "resolveA env d"; cases "resolveAAAA env d")
    (auto simp add: checkDNS_def Let_def found_def foundText_def computeDomainExists_def)

text \<open>
  The claim C4 as stated fails for an option set that switches the MX lookup off: the
  domain has MX records, and \<open>domainExists\<close> is false.
\<close>

theorem domainExists_mx_off_counterexample:
  "found (resolveMx exampleDns ''example.com'') \<and>
   \<not> domainExists (fst (checkDNS exampleDns ''example.com''
        \<lparr>optMx = Some False, optSpf = None, optDmarc = None, optTimeoutMs = None\<rparr>))"
  by (simp add: checkDNS_def Let_def found_def computeDomainExists_def resolveMx_def resolveTxt_def
      resolveA_def resolveAAAA_def resolveCached_def exampleDns_def)

text \<open>
  Claim C4, amended. For every domain and option set, \<open>domainExists\<close> is true if and only
  if the MX lookup is enabled (\<open>opts.mx\<close> is not false) and finds an MX record, or the SPF
  lookup is enabled (\<open>opts.spf\<close> is not false) and the TXT lookup at the root finds a
  record whose text is not empty, or the A lookup finds a record, or the AAAA lookup
  finds a record.
\<close>

theorem checkDNS_domainExists:
  "domainExists (fst (checkDNS env d opts)) \<longleftrightarrow>
     (optMx opts \<noteq> Some False \<and> found (resolveMx env d)) \<or>
     (optSpf opts \<noteq> Some False \<and> foundText (resolveTxt env d)) \<or>
     found (resolveA env d) \<or> found (resolveAAAA env d)"
  by (rule domainExists_lookups)

theorem checkDNS_domainExists_witness:
  "domainExists (fst (checkDNS exampleDns ''example.com'' (mxOnly (Some 4000)))) \<and>
   found (resolveMx exampleDns ''example.com'')"
  using checkDNS_domainExists [of exampleDns "''example.com''" "mxOnly (Some 4000)"]
  by (simp add: mxOnly_def found_def resolveMx_def resolveCached_def exampleDns_def)

section \<open>Verification: catch-all detector\<close>






lemma sessionOk_caOnData: "sessionOk s \<Longrightarrow> sessionOk (caOnData t chunk s)"
  unfolding caOnData_def Let_def
  by (auto split: option.splits
      intro!: sessionOk_done'_send sessionOk_done'_stage sessionOk_send)

lemma sessionOk_caStep: "sessionOk s \<Longrightarrow> sessionOk (caStep t s ev)"
  by (cases ev) (simp_all add: sessionOk_caOnData sessionOk_done')

lemma sessionOk_ca_foldl: "sessionOk s \<Longrightarrow> sessionOk (foldl (caStep t) s evs)"
  by (induction evs arbitrary: s) (simp_all add: sessionOk_caStep)

lemma sessionOk_newSession: "sessionOk newSession"
  by (simp add: sessionOk_def newSession_def)

text \<open>Every catch-all session settles.\<close>

lemma smtpCatchAllProbe_settles: "\<exists>r. smtpCatchAllProbe net host t = Some r"
proof -
  have "sessionOk (foldl (caStep t) newSession (net host))"
    by (rule sessionOk_ca_foldl [OF sessionOk_newSession])
  then have "outcome (caOnTimeout (foldl (caStep t) newSession (net host))) \<noteq> None"
    by (auto simp: sessionOk_def caOnTimeout_def done'_def)
  then show ?thesis by (simp add: smtpCatchAllProbe_def caRun_def)
qed

lemma catchAllHosts_find:
  "catchAllHosts net t hosts =
     (case find (conclusive net t) hosts of
        None \<Rightarrow> Some couldNotDetermine
      | Some h \<Rightarrow>
          (case smtpCatchAllProbe net h t of
             Some r \<Rightarrow> Some (if accepts r then acceptedBy h else rejectedWith (probeCode r))
           | None \<Rightarrow> None),
      map SmtpConnect (hostsTried (conclusive net t) hosts))"
proof (induction hosts)
  case Nil
  show ?case by simp
next
  case (Cons h hs)
  obtain r where r: "smtpCatchAllProbe net h t = Some r"
    using smtpCatchAllProbe_settles by blast
  show ?case
  proof (cases "truthy (error r)")
    case True
    with r have "\<not> conclusive net t h" by (simp add: conclusive_def)
    with r True Cons show ?thesis by simp
  next
    case False
    with r have "conclusive net t h" by (simp add: conclusive_def)
    with r False show ?thesis by simp
  qed
qed

lemma catchAllHosts_continue:
  "\<not> conclusive net t h \<Longrightarrow> fst (catchAllHosts net t (h # hs)) = fst (catchAllHosts net t hs)"
  by (simp add: catchAllHosts_find)


lemma checkCatchAll_hosts:
  assumes "mxHostList env d timeout \<noteq> []"
  shows "checkCatchAll env net rnd d (Some timeout) =
           (fst (catchAllHosts net (generateRandomEmail rnd d) (mxHostList env d timeout)),
            dnsLookups env d (mxOnly (Some timeout)) @
              snd (catchAllHosts net (generateRandomEmail rnd d) (mxHostList env d timeout)))"
proof -
  obtain dnsResult dnsIo where dns: "checkDNS env d (mxOnly (Some timeout)) = (dnsResult, dnsIo)"
    by (cases "checkDNS env d (mxOnly (Some timeout))")
  have io: "dnsIo = dnsLookups env d (mxOnly (Some timeout))"
    using checkDNS_io [of env d "mxOnly (Some timeout)"] dns by simp
  have hosts: "mxHostList env d timeout = (case mxHosts dnsResult of Some hs \<Rightarrow> hs | None \<Rightarrow> [])"
    by (simp add: mxHostList_def dns)
  with assms dns io show ?thesis
    by (simp add: checkCatchAll_def Let_def split: prod.splits)
qed


lemma checkCatchAll_conclusive:
  assumes "find (conclusive net (generateRandomEmail rnd d)) (mxHostList env d timeout) = Some h"
  shows "\<exists>r. smtpCatchAllProbe net h (generateRandomEmail rnd d) = Some r \<and> \<not> truthy (error r) \<and>
           fst (checkCatchAll env net rnd d (Some timeout)) =
             Some \<lparr>isCatchAll = accepts r, caConfidence = High, caMethod = SmtpProbe,
                   details = Some (if accepts r then ''Random address accepted by '' @ h
                                   else ''Random address rejected with code '' @
                                        (case probeCode r of Some v \<Rightarrow> v | None \<Rightarrow> ''undefined''))\<rparr>"
proof -
  from assms have ne: "mxHostList env d timeout \<noteq> []" by auto
  from assms have "conclusive net (generateRandomEmail rnd d) h" by (auto simp: find_Some_iff)
  then obtain r where r: "smtpCatchAllProbe net h (generateRandomEmail rnd d) = Some r"
    and e: "\<not> truthy (error r)"
    by (auto simp: conclusive_def split: option.splits)
  have "fst (checkCatchAll env net rnd d (Some timeout)) =
      Some (if accepts r then acceptedBy h else rejectedWith (probeCode r))"
    using assms r by (simp add: checkCatchAll_hosts [OF ne] catchAllHosts_find)
  with r e show ?thesis by (auto simp: acceptedBy_def rejectedWith_def)
qed














lemmas eval_strings =
  lastLine_def trim_def CRLF_def CR_def LF_def isSpace_def parseCode_def isDigit_def startsWith_def

lemmas eval_session =
  newSession_def done'_def send_def clearTimeout_def Let_def


lemma accepting_probes:
  "smtpCatchAllProbe acceptingNet ''mx1.example.com'' t =
     Some \<lparr>accepts = False, probeCode = None, error = Some ''timeout''\<rparr>"
  "smtpCatchAllProbe acceptingNet ''mx2.example.com'' t =
     Some \<lparr>accepts = True, probeCode = Some ''250'', error = None\<rparr>"
  by (simp_all add: smtpCatchAllProbe_def caRun_def acceptingNet_def acceptingServer_def
      caOnData_def caOnTimeout_def eval_strings eval_session)

lemma earlyReject_probes:
  "smtpCatchAllProbe earlyRejectNet ''mx1.example.com'' t =
     Some \<lparr>accepts = False, probeCode = Some ''554'', error = Some ''rejected_early''\<rparr>"
  "smtpCatchAllProbe earlyRejectNet ''mx2.example.com'' t =
     Some \<lparr>accepts = False, probeCode = Some ''550'', error = None\<rparr>"
  by (simp_all add: smtpCatchAllProbe_def caRun_def earlyRejectNet_def rejectingServer_def
      caOnData_def caOnTimeout_def eval_strings eval_session)








section \<open>Verification: normalisation and the syntax gate\<close>

lemma splitChar_length: "length (splitChar c s) = Suc (count_list s c)"
  by (induction s) (auto split: list.splits)

lemma splitChar_nonempty [simp]: "splitChar c s \<noteq> []"
  using splitChar_length [of c s] by auto

lemma splitChar_parts: "p \<in> set (splitChar c s) \<Longrightarrow> c \<notin> set p"
proof (induction s arbitrary: p)
  case Nil
  then show ?case by simp
next
  case (Cons x xs)
  obtain q qs where q: "splitChar c xs = q # qs" by (cases "splitChar c xs") auto
  with Cons show ?case by (auto split: if_splits)
qed

lemma splitChar_single: "splitChar c s = [p] \<Longrightarrow> s = p"
proof (induction s arbitrary: p)
  case Nil
  then show ?case by simp
next
  case (Cons x xs)
  obtain q qs where q: "splitChar c xs = q # qs" by (cases "splitChar c xs") auto
  with Cons show ?case by (auto split: if_splits)
qed

lemma splitChar_pair: "splitChar c s = [lp, dr] \<Longrightarrow> s = lp @ c # dr"
proof (induction s arbitrary: lp)
  case Nil
  then show ?case by simp
next
  case (Cons x xs)
  obtain q qs where q: "splitChar c xs = q # qs" by (cases "splitChar c xs") auto
  show ?case
  proof (cases "x = c")
    case True
    with Cons.prems have "lp = []" "splitChar c xs = [dr]" by simp_all
    with True splitChar_single show ?thesis by fastforce
  next
    case False
    with Cons.prems q have "lp = x # q" "splitChar c xs = [q, dr]" by simp_all
    with Cons.IH show ?thesis by simp
  qed
qed

lemma count_list_dropWhile: "\<not> P a \<Longrightarrow> count_list (dropWhile P xs) a = count_list xs a"
  by (induction xs) auto

lemma count_list_trim: "\<not> isSpace a \<Longrightarrow> count_list (trim s) a = count_list s a"
  by (simp add: trim_def count_list_dropWhile)

lemma at_not_space: "\<not> isSpace CHR ''@''"
  by (simp add: isSpace_def)

lemma trim_starts:
  assumes "\<not> isSpace a"
  shows "\<exists>r. trim (a # rest) = a # r"
proof -
  have "dropWhile isSpace (rev rest @ [a]) = dropWhile isSpace (rev rest) @ [a]"
    using assms by (simp add: dropWhile_append3)
  then have "trim (a # rest) = a # rev (dropWhile isSpace (rev rest))"
    using assms by (simp add: trim_def)
  then show ?thesis by blast
qed

lemma trim_ends:
  assumes "\<not> isSpace a"
  shows "\<exists>r. trim (xs @ [a]) = r @ [a]"
proof -
  have "dropWhile isSpace (xs @ [a]) = dropWhile isSpace xs @ [a]"
    using assms by (simp add: dropWhile_append3)
  then have "trim (xs @ [a]) = dropWhile isSpace xs @ [a]"
    using assms by (simp add: trim_def)
  then show ?thesis by blast
qed

text \<open>An address that passes \<open>normalizeEmail\<close> splits into two parts, none of them empty.\<close>

lemma normalizeEmail_ok:
  assumes "ok (normalizeEmail toAscii e)"
  shows "\<exists>lp dr. splitChar CHR ''@'' (trim e) = [lp, dr] \<and> lp \<noteq> [] \<and> dr \<noteq> []"
  using assms
  by (auto simp: normalizeEmail_def normFail_def Let_def split: list.splits if_splits option.splits)

lemma normalizeEmail_rejects:
  assumes "count_list e CHR ''@'' \<noteq> 1 \<or> (\<exists>rest. e = CHR ''@'' # rest) \<or> (\<exists>xs. e = xs @ ''@'')"
  shows "\<not> ok (normalizeEmail toAscii e)"
proof
  assume "ok (normalizeEmail toAscii e)"
  then obtain lp dr where sp: "splitChar CHR ''@'' (trim e) = [lp, dr]" and lp: "lp \<noteq> []"
    and dr: "dr \<noteq> []"
    using normalizeEmail_ok by blast
  have tr: "trim e = lp @ CHR ''@'' # dr" using sp by (rule splitChar_pair)
  have "Suc (count_list (trim e) CHR ''@'') = 2" using splitChar_length [of "CHR ''@''" "trim e"] sp by simp
  then have one: "count_list e CHR ''@'' = 1" by (simp add: count_list_trim at_not_space)
  have nlp: "CHR ''@'' \<notin> set lp" and ndr: "CHR ''@'' \<notin> set dr"
    using splitChar_parts [of lp "CHR ''@''" "trim e"] splitChar_parts [of dr "CHR ''@''" "trim e"] sp
    by simp_all
  from assms one consider (local) rest where "e = CHR ''@'' # rest" | (dom) xs where "e = xs @ ''@''"
    by blast
  then show False
  proof cases
    case local
    then obtain r where "trim e = CHR ''@'' # r" using trim_starts [OF at_not_space] by blast
    with tr lp nlp show False by (cases lp) auto
  next
    case dom
    then obtain r where r: "trim e = r @ [CHR ''@'']" using trim_ends [OF at_not_space] by auto
    have "last (trim e) = CHR ''@''" by (simp add: r)
    then have "last (lp @ CHR ''@'' # dr) = CHR ''@''" by (simp only: tr)
    with dr have "last dr = CHR ''@''" by simp
    with dr ndr show False using last_in_set by metis
  qed
qed

lemma runValidation_not_ok:
  assumes "\<not> ok (normalizeEmail (domainToASCII co) e)"
  shows "\<exists>r. runValidation co world pool e opts = Some (r, pool, []) \<and>
             verdict r = VInvalid \<and> confidence r = 0"
  using assms by (simp add: runValidation_def Let_def buildInvalidResult_def split: option.splits)

text \<open>
  Claim C8. For every input string that lacks an \<open>@\<close>, contains more than one \<open>@\<close>, or
  has an empty local part or an empty domain part, \<open>runValidation\<close> returns a result with
  verdict invalid and confidence 0, leaves the pool of limiters as it was and performs no
  DNS lookup and opens no SMTP connection.
\<close>

theorem malformed_address_rejected:
  "CHR ''@'' \<notin> set e \<or> count_list e CHR ''@'' > 1 \<or> (\<exists>rest. e = CHR ''@'' # rest) \<or>
   (\<exists>xs. e = xs @ ''@'') \<longrightarrow>
     (\<exists>r. runValidation co world pool e opts = Some (r, pool, []) \<and>
          verdict r = VInvalid \<and> confidence r = 0) \<and>
     observed (runValidation co world pool e opts) = Some (VInvalid, 0, [])"
proof
  assume h: "CHR ''@'' \<notin> set e \<or> count_list e CHR ''@'' > 1 \<or> (\<exists>rest. e = CHR ''@'' # rest) \<or>
    (\<exists>xs. e = xs @ ''@'')"
  have "CHR ''@'' \<notin> set e \<longrightarrow> count_list e CHR ''@'' \<noteq> 1"
    by (simp add: count_list_0_iff)
  with h have "count_list e CHR ''@'' \<noteq> 1 \<or> (\<exists>rest. e = CHR ''@'' # rest) \<or> (\<exists>xs. e = xs @ ''@'')"
    by auto
  then have "\<not> ok (normalizeEmail (domainToASCII co) e)" by (rule normalizeEmail_rejects)
  then obtain r where r: "runValidation co world pool e opts = Some (r, pool, [])"
    "verdict r = VInvalid" "confidence r = 0"
    using runValidation_not_ok by blast
  then show "(\<exists>r. runValidation co world pool e opts = Some (r, pool, []) \<and>
          verdict r = VInvalid \<and> confidence r = 0) \<and>
     observed (runValidation co world pool e opts) = Some (VInvalid, 0, [])"
    by (simp add: observed_def)
qed

theorem malformed_address_rejected_witness:
  "observed (runValidation plainCollaborators exampleWorld Map.empty ''invalid-email'' defaultOptions) =
     Some (VInvalid, 0, []) \<and>
   observed (runValidation plainCollaborators exampleWorld Map.empty ''a@b@example.com'' defaultOptions) =
     Some (VInvalid, 0, []) \<and>
   observed (runValidation plainCollaborators exampleWorld Map.empty ''@example.com'' defaultOptions) =
     Some (VInvalid, 0, []) \<and>
   observed (runValidation plainCollaborators exampleWorld Map.empty ''user@'' defaultOptions) =
     Some (VInvalid, 0, [])"
proof -
  have h1: "CHR ''@'' \<notin> set ''invalid-email''" by simp
  have h2: "count_list ''a@b@example.com'' CHR ''@'' > 1" by simp
  have h3: "\<exists>rest. ''@example.com'' = CHR ''@'' # rest" by simp
  have h4: "\<exists>xs. ''user@'' = xs @ ''@''" by (rule exI [of _ "''user''"]) simp
  show ?thesis
    using h1 h2 h3 h4
      malformed_address_rejected [of "''invalid-email''" plainCollaborators exampleWorld Map.empty defaultOptions]
      malformed_address_rejected [of "''a@b@example.com''" plainCollaborators exampleWorld Map.empty defaultOptions]
      malformed_address_rejected [of "''@example.com''" plainCollaborators exampleWorld Map.empty defaultOptions]
      malformed_address_rejected [of "''user@''" plainCollaborators exampleWorld Map.empty defaultOptions]
    by blast
qed

text \<open>
  For comparison, a well-formed address passes the gate: the DNS step runs, and the
  missing SPF and DMARC records of the example domain cost ten points each.
\<close>

lemma wellformed_address_example:
  "observed (runValidation plainCollaborators exampleWorld Map.empty ''user@example.com'' defaultOptions) =
     Some (VRisky, 80,
           [DnsResolve ''MX'' ''example.com'', DnsResolve ''TXT'' ''example.com'',
            DnsResolve ''TXT'' ''_dmarc.example.com'', DnsResolve ''A'' ''example.com'',
            DnsResolve ''AAAA'' ''example.com''])"
  by (simp add: observed_def runValidation_def normalizeEmail_def trim_def isSpace_def toLowerCase_def
      lowerChar_def plainCollaborators_def exampleWorld_def defaultOptions_def checkDNS_def
      dnsLookups_def resolveMx_def resolveTxt_def resolveA_def resolveAAAA_def resolveCached_def
      exampleDns_def found_def computeDomainExists_def localSignals_def deduct_def truthy_def
      smtpStage_def catchAllStage_def DEFAULT_WEIGHTS_def DEFAULT_THRESHOLDS_def clampScore_def
      computeVerdict_def Let_def)

end
